theory Spec2Isabelle
  imports Main "HOL-Library.Char_ord"
begin

section \<open>JavaScript values used by botport.ts\<close>

text \<open>
  A JavaScript string is modelled as a HOL \<open>string\<close>: a list of 8-bit characters, read as
  the code units U+0000 to U+00FF. Where a library function would produce a code unit
  beyond U+00FF, or where the input lies outside the fragment of the library that is
  modelled here, the model answers \<open>Inl Unmodelled\<close>; the other errors are the exceptions
  the library really throws, \<open>TransportError\<close> is the rejection of a call to the
  transport, and \<open>HandlerError\<close> is whatever a route handler throws.
\<close>

datatype js_error = SyntaxError | URIError | TypeError | TransportError | HandlerError | Unmodelled

text \<open>
  JSON values. Numbers are the integers; an object is the list of its own properties in
  enumeration order.
\<close>

datatype json =
    JNull
  | JBool bool
  | JNum int
  | JStr string
  | JArr "json list"
  | JObj "(string \<times> json) list"

text \<open>
  The type \<open>any\<close> of a value handed to \<open>JSON.stringify\<close>: a JSON value, or a value on
  which \<open>JSON.stringify\<close> throws (a cyclic structure, a BigInt).
\<close>

datatype js_any = Json json | Unserializable

subsection \<open>Number to string\<close>

definition digit_char :: "nat \<Rightarrow> char" where
  "digit_char d = ''0123456789abcdef'' ! d"

text \<open>The decimal digits of a number that is not negative.\<close>

function show_digits :: "int \<Rightarrow> string" where
  "show_digits n =
     (if n < 10 then [digit_char (nat n)]
      else show_digits (n div 10) @ [digit_char (nat (n mod 10))])"
  by pat_completeness auto
termination
  by (relation "measure nat") auto

declare show_digits.simps [simp del]

definition show_int :: "int \<Rightarrow> string" where
  "show_int i = (if i < 0 then CHR ''-'' # show_digits (- i) else show_digits i)"

definition show_nat :: "nat \<Rightarrow> string" where
  "show_nat n = show_digits (int n)"

subsection \<open>JSON.stringify\<close>

text \<open>
  \<open>QuoteJSONString\<close>: the two-character escapes, \<open>\u00XX\<close> for the other control
  characters, every other code unit as it is.
\<close>

definition quote_char :: "char \<Rightarrow> string" where
  "quote_char c =
     (if c = CHR 0x08 then [CHR 0x5C, CHR ''b'']
      else if c = CHR 0x09 then [CHR 0x5C, CHR ''t'']
      else if c = CHR 0x0A then [CHR 0x5C, CHR ''n'']
      else if c = CHR 0x0C then [CHR 0x5C, CHR ''f'']
      else if c = CHR 0x0D then [CHR 0x5C, CHR ''r'']
      else if c = CHR 0x22 then [CHR 0x5C, CHR 0x22]
      else if c = CHR 0x5C then [CHR 0x5C, CHR 0x5C]
      else if (of_char c :: nat) < 32
        then [CHR 0x5C, CHR ''u'', CHR ''0'', CHR ''0'',
              digit_char (of_char c div 16), digit_char (of_char c mod 16)]
      else [c])"

definition quote :: "string \<Rightarrow> string" where
  "quote s = CHR 0x22 # concat (map quote_char s) @ [CHR 0x22]"

fun stringify :: "json \<Rightarrow> string"
  and stringify_elements :: "json list \<Rightarrow> string"
  and stringify_members :: "(string \<times> json) list \<Rightarrow> string" where
  "stringify JNull = ''null''"
| "stringify (JBool b) = (if b then ''true'' else ''false'')"
| "stringify (JNum i) = show_int i"
| "stringify (JStr s) = quote s"
| "stringify (JArr xs) = ''['' @ stringify_elements xs @ '']''"
| "stringify (JObj ms) = ''{'' @ stringify_members ms @ ''}''"
| "stringify_elements [] = []"
| "stringify_elements [x] = stringify x"
| "stringify_elements (x # y # ys) = stringify x @ '','' @ stringify_elements (y # ys)"
| "stringify_members [] = []"
| "stringify_members [(k, v)] = quote k @ '':'' @ stringify v"
| "stringify_members ((k, v) # m # ms) =
     quote k @ '':'' @ stringify v @ '','' @ stringify_members (m # ms)"

definition JSON_stringify :: "js_any \<Rightarrow> js_error + string" where
  "JSON_stringify d = (case d of Json v \<Rightarrow> Inr (stringify v) | Unserializable \<Rightarrow> Inl TypeError)"


section \<open>The library functions the program calls\<close>

subsection \<open>String methods\<close>

text \<open>
  White space as \<open>\s\<close>, \<open>trim\<close> and \<open>parseInt\<close> see it: tab, line feed, vertical tab,
  form feed, carriage return, space and the no-break space U+00A0.
\<close>

definition is_space :: "char \<Rightarrow> bool" where
  "is_space c = (c \<in> {CHR 0x09, CHR 0x0A, CHR 0x0B, CHR 0x0C, CHR 0x0D, CHR 0x20, CHR 0xA0})"

definition is_digit :: "char \<Rightarrow> bool" where
  "is_digit c = (CHR ''0'' \<le> c \<and> c \<le> CHR ''9'')"

definition is_alpha :: "char \<Rightarrow> bool" where
  "is_alpha c = ((CHR ''a'' \<le> c \<and> c \<le> CHR ''z'') \<or> (CHR ''A'' \<le> c \<and> c \<le> CHR ''Z''))"

text \<open>The class \<open>\w\<close>.\<close>

definition is_word :: "char \<Rightarrow> bool" where
  "is_word c = (is_alpha c \<or> is_digit c \<or> c = CHR ''_'')"

definition trim :: "string \<Rightarrow> string" where
  "trim s = rev (dropWhile is_space (rev (dropWhile is_space s)))"

text \<open>
  \<open>s.split(/\s+/)\<close>: the pieces between the maximal runs of white space; a run at the
  start or at the end leaves an empty piece there, and the empty string gives one empty
  piece.
\<close>

fun split_ws :: "string \<Rightarrow> string list" where
  "split_ws [] = [[]]"
| "split_ws (c # cs) =
     (if is_space c then
        (if cs \<noteq> [] \<and> is_space (hd cs) then split_ws cs else [] # split_ws cs)
      else (case split_ws cs of [] \<Rightarrow> [[c]] | w # ws \<Rightarrow> (c # w) # ws))"

text \<open>\<open>parts.join(sep)\<close>.\<close>

fun join :: "string \<Rightarrow> string list \<Rightarrow> string" where
  "join sep [] = []"
| "join sep [x] = x"
| "join sep (x # y # ys) = x @ sep @ join sep (y # ys)"

text \<open>
  \<open>toUpperCase\<close>. The capitals of U+00B5 and U+00FF lie beyond U+00FF, so a string
  with one of them is outside the model.
\<close>

definition upper_char :: "char \<Rightarrow> string" where
  "upper_char c =
     (let n = (of_char c :: nat) in
      if 97 \<le> n \<and> n \<le> 122 then [char_of (n - 32)]
      else if n = 0xDF then ''SS''
      else if 0xE0 \<le> n \<and> n \<le> 0xFE \<and> n \<noteq> 0xF7 then [char_of (n - 32)]
      else [c])"

definition toUpperCase :: "string \<Rightarrow> js_error + string" where
  "toUpperCase s =
     (if CHR 0xB5 \<in> set s \<or> CHR 0xFF \<in> set s then Inl Unmodelled
      else Inr (concat (map upper_char s)))"

text \<open>\<open>s.indexOf(' ')\<close>, with \<open>None\<close> for -1.\<close>

fun indexOf_space :: "string \<Rightarrow> nat option" where
  "indexOf_space [] = None"
| "indexOf_space (c # cs) =
     (if c = CHR '' '' then Some 0 else map_option Suc (indexOf_space cs))"

subsection \<open>parseInt\<close>

text \<open>
  \<open>parseInt(s, 10)\<close>: leading white space is skipped, a sign is read, and the longest
  run of decimal digits that follows is the value; \<open>None\<close> is NaN, the result when that
  run is empty. (JavaScript rounds beyond \<open>2^53\<close>; the integers here are exact.)
\<close>

definition digit_val :: "char \<Rightarrow> int" where
  "digit_val c = of_char c - 48"

definition digits_val :: "string \<Rightarrow> int" where
  "digits_val ds = foldl (\<lambda>acc c. 10 * acc + digit_val c) 0 ds"

definition parseInt :: "string \<Rightarrow> int option" where
  "parseInt str =
     (let s = dropWhile is_space str;
          neg = (s \<noteq> [] \<and> hd s = CHR ''-'');
          s1 = (if s \<noteq> [] \<and> (hd s = CHR ''-'' \<or> hd s = CHR ''+'') then tl s else s);
          z = takeWhile is_digit s1
      in if z = [] then None
         else Some (if neg then - digits_val z else digits_val z))"

subsection \<open>encodeURIComponent and decodeURIComponent\<close>

definition upper_hex :: "nat \<Rightarrow> char" where
  "upper_hex d = ''0123456789ABCDEF'' ! d"

definition pct_byte :: "nat \<Rightarrow> string" where
  "pct_byte b = [CHR ''%'', upper_hex (b div 16), upper_hex (b mod 16)]"

text \<open>
  The UTF-8 form of a code unit below U+0100, percent-encoded: one byte below U+0080,
  two bytes from there on.
\<close>

definition pct_utf8 :: "char \<Rightarrow> string" where
  "pct_utf8 c =
     (let n = (of_char c :: nat) in
      if n < 128 then pct_byte n else pct_byte (192 + n div 64) @ pct_byte (128 + n mod 64))"

definition uri_unreserved :: "char \<Rightarrow> bool" where
  "uri_unreserved c = (is_alpha c \<or> is_digit c \<or> c \<in> set ''-_.!~*'()'')"

definition encodeURIComponent :: "string \<Rightarrow> string" where
  "encodeURIComponent s = concat (map (\<lambda>c. if uri_unreserved c then [c] else pct_utf8 c) s)"

definition hex_val :: "char \<Rightarrow> nat option" where
  "hex_val c =
     (if is_digit c then Some (of_char c - 48)
      else if CHR ''a'' \<le> c \<and> c \<le> CHR ''f'' then Some (of_char c - 87)
      else if CHR ''A'' \<le> c \<and> c \<le> CHR ''F'' then Some (of_char c - 55)
      else None)"

definition hex_byte :: "char \<Rightarrow> char \<Rightarrow> nat option" where
  "hex_byte h l =
     (case (hex_val h, hex_val l) of (Some a, Some b) \<Rightarrow> Some (16 * a + b) | _ \<Rightarrow> None)"

definition cons_ok :: "'a \<Rightarrow> js_error + 'a list \<Rightarrow> js_error + 'a list" where
  "cons_ok x r = (case r of Inl e \<Rightarrow> Inl e | Inr xs \<Rightarrow> Inr (x # xs))"

text \<open>
  \<open>decodeURIComponent\<close>. A \<open>%\<close> must start an escape \<open>%XX\<close>; an escaped byte from 0x80
  on must start a well-formed UTF-8 sequence, all of it escaped; anything else throws
  URIError. Two-byte sequences are decoded here; the three- and four-byte ones, and
  the two-byte ones beyond U+00FF, are outside the model.
\<close>

fun decodeURIComponent :: "string \<Rightarrow> js_error + string" where
  "decodeURIComponent [] = Inr []"
| "decodeURIComponent (c # cs) =
     (if c \<noteq> CHR ''%'' then cons_ok c (decodeURIComponent cs)
      else (case cs of
        h1 # l1 # rest \<Rightarrow>
          (case hex_byte h1 l1 of
             None \<Rightarrow> Inl URIError
           | Some b \<Rightarrow>
               if b < 128 then cons_ok (char_of b) (decodeURIComponent rest)
               else if b < 192 \<or> 248 \<le> b then Inl URIError
               else if 224 \<le> b then Inl Unmodelled
               else (case rest of
                 p # h2 # l2 # rest2 \<Rightarrow>
                   (if p \<noteq> CHR ''%'' then Inl URIError
                    else (case hex_byte h2 l2 of
                       None \<Rightarrow> Inl URIError
                     | Some b2 \<Rightarrow>
                         if b2 < 128 \<or> 192 \<le> b2 then Inl URIError
                         else if b < 194 then Inl URIError
                         else if 196 \<le> b then Inl Unmodelled
                         else cons_ok (char_of ((b - 192) * 64 + (b2 - 128)))
                                (decodeURIComponent rest2)))
               | _ \<Rightarrow> Inl URIError))
      | _ \<Rightarrow> Inl URIError))"

subsection \<open>Objects built from entries\<close>

text \<open>
  \<open>Object.fromEntries\<close>: each entry sets its property, so a later entry with the same
  key replaces the value of the earlier one. (The enumeration order JavaScript gives to
  integer-like keys is not modelled: a property stays where it was first set.)
\<close>

fun put :: "'k \<Rightarrow> 'v \<Rightarrow> ('k \<times> 'v) list \<Rightarrow> ('k \<times> 'v) list" where
  "put k v [] = [(k, v)]"
| "put k v ((k', v') # m) = (if k = k' then (k, v) # m else (k', v') # put k v m)"

definition fromEntries :: "('k \<times> 'v) list \<Rightarrow> ('k \<times> 'v) list" where
  "fromEntries es = foldl (\<lambda>m (k, v). put k v m) [] es"

subsection \<open>new URL(route, 'http://localhost')\<close>

text \<open>
  The WHATWG URL parser on an input that is relative to the base \<open>http://localhost\<close>.
  Modelled: the input without a scheme and without an authority, that is the states
  "relative", "relative slash", "path", "query" and "fragment" of the parser, and the
  \<open>application/x-www-form-urlencoded\<close> parser behind \<open>searchParams\<close>. An input with a
  scheme, or one that starts with two slashes (a host follows), is outside the model,
  and so is \<open>^\<close> in a path, which the editions of the standard encode differently.
\<close>

record url =
  pathname :: string
  searchParams :: "(string \<times> string) list"

definition is_c0_or_space :: "char \<Rightarrow> bool" where
  "is_c0_or_space c = ((of_char c :: nat) \<le> 32)"

definition url_clean :: "string \<Rightarrow> string" where
  "url_clean s =
     filter (\<lambda>c. c \<notin> {CHR 0x09, CHR 0x0A, CHR 0x0D})
       (rev (dropWhile is_c0_or_space (rev (dropWhile is_c0_or_space s))))"

definition has_scheme :: "string \<Rightarrow> bool" where
  "has_scheme s =
     (case s of
        [] \<Rightarrow> False
      | c # cs \<Rightarrow>
          is_alpha c \<and>
          (case dropWhile (\<lambda>d. is_alpha d \<or> is_digit d \<or> d \<in> set ''+-.'') cs of
             [] \<Rightarrow> False
           | d # _ \<Rightarrow> d = CHR '':''))"

definition c0_control_set :: "char \<Rightarrow> bool" where
  "c0_control_set c = ((of_char c :: nat) < 32 \<or> (of_char c :: nat) > 126)"

definition query_set :: "char \<Rightarrow> bool" where
  \<open>query_set c = (c0_control_set c \<or> c \<in> set '' "#<>'')\<close>

definition special_query_set :: "char \<Rightarrow> bool" where
  "special_query_set c = (query_set c \<or> c = CHR 0x27)"

definition path_set :: "char \<Rightarrow> bool" where
  "path_set c = (query_set c \<or> c \<in> set ''?`{}'')"

definition lower_e :: "string \<Rightarrow> string" where
  "lower_e s = map (\<lambda>c. if c = CHR ''E'' then CHR ''e'' else c) s"

definition is_single_dot :: "string \<Rightarrow> bool" where
  "is_single_dot buf = (lower_e buf \<in> {''.'', ''%2e''})"

definition is_double_dot :: "string \<Rightarrow> bool" where
  "is_double_dot buf = (lower_e buf \<in> {''..'', ''.%2e'', ''%2e.'', ''%2e%2e''})"

text \<open>
  The end of a path segment in the path state; \<open>slash\<close> tells whether a slash (or a
  backslash) ended it. Shortening the path removes its last segment, if any.
\<close>

definition finish_segment :: "string \<Rightarrow> string list \<Rightarrow> bool \<Rightarrow> string list" where
  "finish_segment buf path slash =
     (if is_double_dot buf then (if slash then butlast path else butlast path @ [[]])
      else if is_single_dot buf then (if slash then path else path @ [[]])
      else path @ [buf])"

text \<open>The query state: the text up to a \<open>#\<close>, percent-encoded.\<close>

definition query_state :: "string \<Rightarrow> string" where
  "query_state cs =
     concat (map (\<lambda>c. if special_query_set c then pct_utf8 c else [c])
               (takeWhile (\<lambda>c. c \<noteq> CHR ''#'') cs))"

text \<open>
  The path state: the segments of the path, and the query if there is one.
\<close>

fun path_state :: "string \<Rightarrow> string \<Rightarrow> string list \<Rightarrow> js_error + (string list \<times> string option)" where
  "path_state [] buf path = Inr (finish_segment buf path False, None)"
| "path_state (c # cs) buf path =
     (if c = CHR ''/'' \<or> c = CHR 0x5C then path_state cs [] (finish_segment buf path True)
      else if c = CHR ''?'' then Inr (finish_segment buf path False, Some (query_state cs))
      else if c = CHR ''#'' then Inr (finish_segment buf path False, None)
      else if c = CHR ''^'' then Inl Unmodelled
      else path_state cs (buf @ (if path_set c then pct_utf8 c else [c])) path)"

text \<open>
  The relative state and the relative slash state. The path of the base is the one
  empty segment.
\<close>

definition relative_state :: "string \<Rightarrow> js_error + (string list \<times> string option)" where
  "relative_state s =
     (case s of
        [] \<Rightarrow> Inr ([[]], None)
      | c # cs \<Rightarrow>
          if c = CHR ''/'' \<or> c = CHR 0x5C then
            (case cs of
               [] \<Rightarrow> path_state cs [] []
             | d # _ \<Rightarrow> if d = CHR ''/'' \<or> d = CHR 0x5C then Inl Unmodelled
                        else path_state cs [] [])
          else if c = CHR ''?'' then Inr ([[]], Some (query_state cs))
          else if c = CHR ''#'' then Inr ([[]], None)
          else path_state s [] [])"

fun split_on :: "char \<Rightarrow> string \<Rightarrow> string list" where
  "split_on d [] = [[]]"
| "split_on d (c # cs) =
     (if c = d then [] # split_on d cs
      else (case split_on d cs of [] \<Rightarrow> [[c]] | w # ws \<Rightarrow> (c # w) # ws))"

text \<open>
  Percent-decoding of a form field, after \<open>+\<close> has become a space: an escape \<open>%XX\<close> is
  its byte, any other \<open>%\<close> stays. The bytes are then read as UTF-8; a byte from 0x80 on
  that is not part of a two-byte sequence below U+0100 gives a character beyond the
  model (or U+FFFD).
\<close>

fun form_decode :: "string \<Rightarrow> js_error + string" where
  "form_decode [] = Inr []"
| "form_decode (c # cs) =
     (if c = CHR ''+'' then cons_ok (CHR '' '') (form_decode cs)
      else if c \<noteq> CHR ''%'' then
        (if (of_char c :: nat) < 128 then cons_ok c (form_decode cs) else Inl Unmodelled)
      else (case cs of
        h1 # l1 # rest \<Rightarrow>
          (case hex_byte h1 l1 of
             None \<Rightarrow> cons_ok c (form_decode cs)
           | Some b \<Rightarrow>
               if b < 128 then cons_ok (char_of b) (form_decode rest)
               else if b = 194 \<or> b = 195 then
                 (case rest of
                    p # h2 # l2 # rest2 \<Rightarrow>
                      (if p \<noteq> CHR ''%'' then Inl Unmodelled
                       else (case hex_byte h2 l2 of
                          None \<Rightarrow> Inl Unmodelled
                        | Some b2 \<Rightarrow>
                            if b2 < 128 \<or> 192 \<le> b2 then Inl Unmodelled
                            else cons_ok (char_of ((b - 192) * 64 + (b2 - 128)))
                                   (form_decode rest2)))
                  | _ \<Rightarrow> Inl Unmodelled)
               else Inl Unmodelled)
      | _ \<Rightarrow> cons_ok c (form_decode cs)))"

definition form_entry :: "string \<Rightarrow> js_error + (string \<times> string)" where
  "form_entry seq =
     (let name = takeWhile (\<lambda>c. c \<noteq> CHR ''='') seq;
          val = drop (Suc (length name)) seq
      in case form_decode name of
           Inl e \<Rightarrow> Inl e
         | Inr n \<Rightarrow> (case form_decode val of Inl e \<Rightarrow> Inl e | Inr v \<Rightarrow> Inr (n, v)))"

fun form_entries :: "string list \<Rightarrow> js_error + (string \<times> string) list" where
  "form_entries [] = Inr []"
| "form_entries (seq # seqs) =
     (if seq = [] then form_entries seqs
      else (case form_entry seq of
              Inl e \<Rightarrow> Inl e
            | Inr kv \<Rightarrow> cons_ok kv (form_entries seqs)))"

definition form_parse :: "string \<Rightarrow> js_error + (string \<times> string) list" where
  "form_parse q = form_entries (split_on (CHR ''&'') q)"

definition serialize_path :: "string list \<Rightarrow> string" where
  "serialize_path path = concat (map (\<lambda>seg. CHR ''/'' # seg) path)"

definition URL_parse :: "string \<Rightarrow> js_error + url" where
  "URL_parse input =
     (let s = url_clean input in
      if has_scheme s then Inl Unmodelled
      else (case relative_state s of
              Inl e \<Rightarrow> Inl e
            | Inr (path, q) \<Rightarrow>
                (case form_parse (case q of None \<Rightarrow> [] | Some qs \<Rightarrow> qs) of
                   Inl e \<Rightarrow> Inl e
                 | Inr es \<Rightarrow> Inr \<lparr>pathname = serialize_path path, searchParams = es\<rparr>)))"

subsection \<open>Regular expressions\<close>

text \<open>
  The fragment of the regular expressions that route templates are modelled on: a
  pattern anchored at both ends whose body is a sequence of items, an item being a
  character or a dot with an optional quantifier \<open>?\<close>, \<open>*\<close> or \<open>+\<close>, or the capture
  group \<open>([^/]+)\<close>. A pattern with any other syntax character is outside the model.
\<close>

datatype atom = Lit char | Dot

datatype quant = One | Opt | Star | Plus

datatype item = Chr atom quant | Group

fun atom_ok :: "atom \<Rightarrow> char \<Rightarrow> bool" where
  "atom_ok (Lit a) c = (c = a)"
| "atom_ok Dot c = (c \<noteq> CHR 0x0A \<and> c \<noteq> CHR 0x0D)"

definition run :: "atom \<Rightarrow> string \<Rightarrow> nat" where
  "run a s = length (takeWhile (atom_ok a) s)"

definition group_run :: "string \<Rightarrow> nat" where
  "group_run s = length (takeWhile (\<lambda>c. c \<noteq> CHR ''/'') s)"

text \<open>
  The backtracking matcher. A quantified item is greedy: it first takes the longest run
  it can, and gives one character back each time the rest of the pattern fails, down
  to its minimum. The result of a match is the list of the texts of the groups.
\<close>

function rmatch :: "item list \<Rightarrow> string \<Rightarrow> string list option"
  and backoff :: "item list \<Rightarrow> string \<Rightarrow> nat \<Rightarrow> nat \<Rightarrow> (nat \<times> string list) option" where
  "rmatch [] s = (if s = [] then Some [] else None)"
| "rmatch (Chr a One # its) s =
     (case s of [] \<Rightarrow> None | c # cs \<Rightarrow> if atom_ok a c then rmatch its cs else None)"
| "rmatch (Chr a Opt # its) s = map_option snd (backoff its s (min 1 (run a s)) 0)"
| "rmatch (Chr a Star # its) s = map_option snd (backoff its s (run a s) 0)"
| "rmatch (Chr a Plus # its) s = map_option snd (backoff its s (run a s) 1)"
| "rmatch (Group # its) s =
     (case backoff its s (group_run s) 1 of
        None \<Rightarrow> None
      | Some (k, gs) \<Rightarrow> Some (take k s # gs))"
| "backoff its s k lo =
     (if k < lo then None
      else (case rmatch its (drop k s) of
              Some gs \<Rightarrow> Some (k, gs)
            | None \<Rightarrow> if k = 0 then None else backoff its s (k - 1) lo))"
  by pat_completeness auto
termination
  by (relation "inv_image (less_than <*lex*> less_than)
        (\<lambda>x. case x of Inl (its, s) \<Rightarrow> (2 * length its, 0)
                      | Inr (its, s, k, lo) \<Rightarrow> (2 * length its + 1, k))") auto

definition syntax_char :: "char \<Rightarrow> bool" where
  "syntax_char c = (c \<in> set ''^$.*+?()[]{}|'' \<or> c = CHR 0x5C)"

definition quant_of :: "char \<Rightarrow> quant" where
  "quant_of q = (if q = CHR ''?'' then Opt else if q = CHR ''*'' then Star else Plus)"

text \<open>The body of a pattern, up to the \<open>$\<close> that ends it.\<close>

function parse_items :: "string \<Rightarrow> js_error + item list" where
  "parse_items s =
     (if s = ''$'' then Inr []
      else if take 7 s = ''([^/]+)'' then cons_ok Group (parse_items (drop 7 s))
      else (case s of
              [] \<Rightarrow> Inl Unmodelled
            | c # cs \<Rightarrow>
                if syntax_char c \<and> c \<noteq> CHR ''.'' then Inl Unmodelled
                else (case cs of
                        [] \<Rightarrow> cons_ok (Chr (if c = CHR ''.'' then Dot else Lit c) One) (parse_items cs)
                      | q # cs' \<Rightarrow>
                          if q \<in> set ''?*+''
                          then cons_ok (Chr (if c = CHR ''.'' then Dot else Lit c) (quant_of q))
                                 (parse_items cs')
                          else cons_ok (Chr (if c = CHR ''.'' then Dot else Lit c) One)
                                 (parse_items cs))))"
  by pat_completeness auto
termination
proof (relation "measure length")
  fix s :: string
  assume "take 7 s = ''([^/]+)''"
  then have "s \<noteq> []" by auto
  then show "(drop 7 s, s) \<in> measure length" by simp
qed auto

declare parse_items.simps [simp del]

text \<open>\<open>new RegExp(source)\<close>, for a source that starts with \<open>^\<close>.\<close>

definition RegExp :: "string \<Rightarrow> js_error + item list" where
  "RegExp src = (case src of [] \<Rightarrow> Inl Unmodelled
                 | c # cs \<Rightarrow> if c = CHR ''^'' then parse_items cs else Inl Unmodelled)"

subsection \<open>JSON.parse\<close>

text \<open>
  A recursive-descent reading of the JSON grammar. Outside the model: a number with a
  fraction or an exponent, the negative zero, and an escape \<open>\uXXXX\<close> beyond U+00FF.
  The first argument of the parsers bounds the number of values and list items still
  to be read; \<open>JSON_parse\<close> starts them with more than the text can hold.
\<close>

definition json_ws :: "char \<Rightarrow> bool" where
  "json_ws c = (c \<in> {CHR 0x20, CHR 0x09, CHR 0x0A, CHR 0x0D})"

definition skip_ws :: "string \<Rightarrow> string" where
  "skip_ws s = dropWhile json_ws s"

definition unescape :: "char \<Rightarrow> char option" where
  "unescape e =
     (if e = CHR 0x22 \<or> e = CHR 0x5C \<or> e = CHR ''/'' then Some e
      else if e = CHR ''b'' then Some (CHR 0x08)
      else if e = CHR ''f'' then Some (CHR 0x0C)
      else if e = CHR ''n'' then Some (CHR 0x0A)
      else if e = CHR ''r'' then Some (CHR 0x0D)
      else if e = CHR ''t'' then Some (CHR 0x09)
      else None)"

definition hex4 :: "char \<Rightarrow> char \<Rightarrow> char \<Rightarrow> char \<Rightarrow> nat option" where
  "hex4 a b c d =
     (case (hex_byte a b, hex_byte c d) of (Some h, Some l) \<Rightarrow> Some (256 * h + l) | _ \<Rightarrow> None)"

definition cons_fst :: "'a \<Rightarrow> js_error + ('a list \<times> 'b) \<Rightarrow> js_error + ('a list \<times> 'b)" where
  "cons_fst x r = (case r of Inl e \<Rightarrow> Inl e | Inr (xs, rest) \<Rightarrow> Inr (x # xs, rest))"

text \<open>The characters of a string after its opening quote; the rest follows the closing one.\<close>

fun parse_string :: "string \<Rightarrow> js_error + (string \<times> string)" where
  "parse_string [] = Inl SyntaxError"
| "parse_string (c # cs) =
     (if c = CHR 0x22 then Inr ([], cs)
      else if c = CHR 0x5C then
        (case cs of
           [] \<Rightarrow> Inl SyntaxError
         | e # rest \<Rightarrow>
             if e = CHR ''u'' then
               (case rest of
                  h1 # h2 # h3 # h4 # rest' \<Rightarrow>
                    (case hex4 h1 h2 h3 h4 of
                       None \<Rightarrow> Inl SyntaxError
                     | Some n \<Rightarrow> if n < 256 then cons_fst (char_of n) (parse_string rest')
                                 else Inl Unmodelled)
                | _ \<Rightarrow> Inl SyntaxError)
             else (case unescape e of
                     None \<Rightarrow> Inl SyntaxError
                   | Some d \<Rightarrow> cons_fst d (parse_string rest)))
      else if (of_char c :: nat) < 32 then Inl SyntaxError
      else cons_fst c (parse_string cs))"

definition parse_number :: "string \<Rightarrow> js_error + (json \<times> string)" where
  "parse_number s =
     (let neg = (s \<noteq> [] \<and> hd s = CHR ''-'');
          s1 = (if neg then tl s else s)
      in case s1 of
           [] \<Rightarrow> Inl SyntaxError
         | d # ds \<Rightarrow>
             if \<not> is_digit d then Inl SyntaxError
             else
               let digs = (if d = CHR ''0'' then [d] else takeWhile is_digit s1);
                   rest = drop (length digs) s1
               in if rest \<noteq> [] \<and> hd rest \<in> set ''.eE'' then Inl Unmodelled
                  else if neg \<and> digits_val digs = 0 then Inl Unmodelled
                  else Inr (JNum (if neg then - digits_val digs else digits_val digs), rest))"

fun parse_value :: "nat \<Rightarrow> string \<Rightarrow> js_error + (json \<times> string)"
  and parse_elements :: "nat \<Rightarrow> string \<Rightarrow> js_error + (json list \<times> string)"
  and parse_members :: "nat \<Rightarrow> string \<Rightarrow> js_error + ((string \<times> json) list \<times> string)" where
  "parse_value 0 s = Inl Unmodelled"
| "parse_value (Suc n) s =
     (case s of
        [] \<Rightarrow> Inl SyntaxError
      | c # cs \<Rightarrow>
          if c = CHR 0x22 then
            (case parse_string cs of Inl e \<Rightarrow> Inl e | Inr (str, rest) \<Rightarrow> Inr (JStr str, rest))
          else if c = CHR ''['' then
            (if skip_ws cs \<noteq> [] \<and> hd (skip_ws cs) = CHR '']'' then Inr (JArr [], tl (skip_ws cs))
             else (case parse_elements n (skip_ws cs) of
                     Inl e \<Rightarrow> Inl e
                   | Inr (xs, rest) \<Rightarrow> Inr (JArr xs, rest)))
          else if c = CHR ''{'' then
            (if skip_ws cs \<noteq> [] \<and> hd (skip_ws cs) = CHR ''}'' then Inr (JObj [], tl (skip_ws cs))
             else (case parse_members n (skip_ws cs) of
                     Inl e \<Rightarrow> Inl e
                   | Inr (ms, rest) \<Rightarrow> Inr (JObj (fromEntries ms), rest)))
          else if c = CHR ''-'' \<or> is_digit c then parse_number s
          else if take 4 s = ''null'' then Inr (JNull, drop 4 s)
          else if take 4 s = ''true'' then Inr (JBool True, drop 4 s)
          else if take 5 s = ''false'' then Inr (JBool False, drop 5 s)
          else Inl SyntaxError)"
| "parse_elements n s =
     (case parse_value n s of
        Inl e \<Rightarrow> Inl e
      | Inr (v, rest) \<Rightarrow>
          (case skip_ws rest of
             [] \<Rightarrow> Inl SyntaxError
           | c # rest' \<Rightarrow>
               if c = CHR '']'' then Inr ([v], rest')
               else if c = CHR '','' then
                 (case n of 0 \<Rightarrow> Inl Unmodelled
                  | Suc m \<Rightarrow> cons_fst v (parse_elements m (skip_ws rest')))
               else Inl SyntaxError))"
| "parse_members n s =
     (case s of
        [] \<Rightarrow> Inl SyntaxError
      | q # s1 \<Rightarrow>
          if q \<noteq> CHR 0x22 then Inl SyntaxError
          else (case parse_string s1 of
            Inl e \<Rightarrow> Inl e
          | Inr (k, s2) \<Rightarrow>
              (case skip_ws s2 of
                 [] \<Rightarrow> Inl SyntaxError
               | colon # s3 \<Rightarrow>
                   if colon \<noteq> CHR '':'' then Inl SyntaxError
                   else (case parse_value n (skip_ws s3) of
                     Inl e \<Rightarrow> Inl e
                   | Inr (v, rest) \<Rightarrow>
                       (case skip_ws rest of
                          [] \<Rightarrow> Inl SyntaxError
                        | c # rest' \<Rightarrow>
                            if c = CHR ''}'' then Inr ([(k, v)], rest')
                            else if c = CHR '','' then
                              (case n of 0 \<Rightarrow> Inl Unmodelled
                               | Suc m \<Rightarrow> cons_fst (k, v) (parse_members m (skip_ws rest')))
                            else Inl SyntaxError)))))"

definition JSON_parse :: "string \<Rightarrow> js_error + json" where
  "JSON_parse s =
     (case parse_value (Suc (length s)) (skip_ws s) of
        Inl e \<Rightarrow> Inl e
      | Inr (v, rest) \<Rightarrow> if skip_ws rest = [] then Inr v else Inl SyntaxError)"

section \<open>The server's Response object\<close>

text \<open>
  What the program does to the outside world, in the order it does it. \<open>Reply st body\<close>
  is one call of \<open>originalMessage.reply\<close> with the content \<open>st\<close>, a space and \<open>body\<close>;
  \<open>ReplyFiles\<close> is the reply that carries the documentation as an attachment; \<open>Invoke\<close>
  marks the call of a route's handler.
\<close>

datatype http_method = GET | POST | PUT | PATCH | DELETE

record request =
  authorId :: string
  req_method :: http_method
  req_path :: string
  params :: "(string \<times> string) list"
  query :: "(string \<times> string) list"
  body :: json

datatype event =
    Reply int string
  | ReplyFiles string
  | Warn string
  | LogError string
  | Invoke http_method string request

definition wire_text :: "event \<Rightarrow> string" where
  "wire_text e = (case e of Reply st b \<Rightarrow> show_int st @ '' '' @ b | ReplyFiles d \<Rightarrow> d | _ \<Rightarrow> [])"

fun is_reply :: "event \<Rightarrow> bool" where
  "is_reply (Reply st b) = True"
| "is_reply (ReplyFiles d) = True"
| "is_reply _ = False"

text \<open>
  The transport is outside the program: \<open>tr n content\<close> tells whether the reply call
  number \<open>n\<close> of this run, carrying \<open>content\<close>, is accepted (the promise of
  \<open>reply\<close> resolves) or refused (it rejects).
\<close>

type_synonym transport = "nat \<Rightarrow> string \<Rightarrow> bool"

definition accepts :: "transport \<Rightarrow> event list \<Rightarrow> event \<Rightarrow> bool" where
  "accepts tr log e = tr (length (filter is_reply log)) (wire_text e)"

text \<open>Two transports for the examples: one accepts every reply, one refuses the first.\<close>

definition accept_all :: transport where
  "accept_all n content = True"

definition refuse_first :: transport where
  "refuse_first n content = (n \<noteq> 0)"

record response =
  statusCode :: int
  sentFinal :: bool

definition new_response :: response where
  "new_response = \<lparr>statusCode = 200, sentFinal = False\<rparr>"

definition status :: "int \<Rightarrow> response \<Rightarrow> response" where
  "status code r = r\<lparr>statusCode := code\<rparr>"

text \<open>How a call ends: it completes, or it throws (its promise rejects).\<close>

datatype outcome = Completed | Raised js_error

text \<open>The \<open>catch\<close> block of \<open>json\<close>, and the literal body it sends.\<close>

definition fallback_body :: string where
  \<open>fallback_body = ''{"error":"Failed to serialize response"}''\<close>

definition json_catch :: "transport \<Rightarrow> response \<times> event list \<Rightarrow> outcome \<times> response \<times> event list" where
  "json_catch tr st =
     (case st of (r, log) \<Rightarrow>
        let log1 = log @ [LogError ''Failed to send API response:''] in
        if \<not> sentFinal r then
          let r2 = r\<lparr>sentFinal := True\<rparr>;
              e = Reply 500 fallback_body
          in (if accepts tr log1 e then Completed else Raised TransportError, r2, log1 @ [e])
        else (Completed, r, log1))"

definition json :: "transport \<Rightarrow> js_any \<Rightarrow> response \<times> event list \<Rightarrow> outcome \<times> response \<times> event list" where
  "json tr data st =
     (case st of (r, log) \<Rightarrow>
        if sentFinal r then
          (Completed, r, log @ [Warn ''Warning: A final response has already been sent for this request.''])
        else
          let r1 = (if statusCode r \<ge> 200 then r\<lparr>sentFinal := True\<rparr> else r) in
          (case JSON_stringify data of
             Inl err \<Rightarrow> json_catch tr (r1, log)
           | Inr jsonBody \<Rightarrow>
               let e = Reply (statusCode r1) jsonBody in
               if accepts tr log e then (Completed, r1, log @ [e])
               else json_catch tr (r1, log @ [e])))"

text \<open>
  \<open>json\<close> above is a call carried through to its end, as its caller sees it when it
  awaits the promise. A caller that does not wait goes on when the call reaches its
  first \<open>await\<close>, and \<open>json_begin\<close> is the call up to there. The test of the flag, the
  serialization and, when that throws, the \<open>catch\<close> block come before any \<open>await\<close>, and
  so does the call of \<open>reply\<close>. \<open>Done\<close> tells that nothing of the call is left to run
  but the settling of its promise; \<open>Refused\<close> tells that the transport refuses the
  reply, so that the \<open>catch\<close> block is still to run, on the Response as it is when the
  refusal arrives.
\<close>

datatype progress = Done outcome | Refused

definition json_begin :: "transport \<Rightarrow> js_any \<Rightarrow> response \<times> event list \<Rightarrow> progress \<times> response \<times> event list" where
  "json_begin tr data st =
     (case st of (r, log) \<Rightarrow>
        if sentFinal r then
          (Done Completed, r, log @ [Warn ''Warning: A final response has already been sent for this request.''])
        else
          let r1 = (if statusCode r \<ge> 200 then r\<lparr>sentFinal := True\<rparr> else r) in
          (case JSON_stringify data of
             Inl err \<Rightarrow> (case json_catch tr (r1, log) of (oc, st') \<Rightarrow> (Done oc, st'))
           | Inr jsonBody \<Rightarrow>
               let e = Reply (statusCode r1) jsonBody in
               (if accepts tr log e then Done Completed else Refused, r1, log @ [e])))"

text \<open>
  The \<open>catch\<close> blocks of \<open>k\<close> calls whose replies were refused run one after the other.
  What they throw (the fallback reply is refused too) rejects a promise that nobody
  awaits.
\<close>

fun settle :: "transport \<Rightarrow> nat \<Rightarrow> response \<times> event list \<Rightarrow> response \<times> event list" where
  "settle tr 0 st = st"
| "settle tr (Suc k) st = settle tr k (snd (json_catch tr st))"

section \<open>The server\<close>

record message =
  msg_id :: string
  author :: string
  mentions :: "string list"
  content :: string
  reference :: "string option"

text \<open>
  What a handler does with its request and its Response in a run: a sequence of steps,
  after which it returns or throws. \<open>Status c\<close> is \<open>res.status(c)\<close>. \<open>SendJson d True\<close> is
  \<open>await res.json(d)\<close>: the handler goes on when the call has ended, and a rejection of
  it is thrown in the handler. \<open>SendJson d False\<close> is \<open>res.json(d)\<close> with the promise
  dropped: the handler goes on as soon as the call has reached its \<open>await\<close>, and if the
  transport refuses the reply, the \<open>catch\<close> block of the call is left to run later.
  \<open>Settle\<close> is a point where the handler is suspended, waiting for something else, and
  the oldest refusal not yet seen arrives: the \<open>catch\<close> block of that call runs. (A
  refusal that arrives while the handler awaits a call of \<open>json\<close> is a \<open>Settle\<close> after
  that call; if it arrives before the refusal of the awaited call itself, the run is
  that of the call not awaited with the steps \<open>Settle\<close> after it.) The refusals that
  have not arrived when the handler ends are seen after the server has dealt with that
  end.
\<close>

datatype res_op = Status int | SendJson js_any bool | Settle

datatype ending = Returns | Throws

type_synonym handler = "request \<Rightarrow> res_op list \<times> ending"

record route =
  "method" :: http_method
  path :: string
  pathRegex :: "item list"
  paramKeys :: "string list"
  handler :: handler
  docs :: "string option"

record server =
  user_id :: string
  docsString :: string
  routes :: "route list"

definition new_server :: "string \<Rightarrow> string \<Rightarrow> server" where
  "new_server uid d = \<lparr>user_id = uid, docsString = trim d, routes = []\<rparr>"

text \<open>
  \<open>path.replace(/:(\w+)/g, ...)\<close>: every colon followed by word characters, with all
  the word characters that follow it, becomes the group \<open>([^/]+)\<close>, and its name is
  pushed on \<open>paramKeys\<close>.
\<close>

function replace_params :: "string \<Rightarrow> string \<times> string list" where
  "replace_params [] = ([], [])"
| "replace_params (c # cs) =
     (if c = CHR '':'' \<and> takeWhile is_word cs \<noteq> [] then
        (case replace_params (dropWhile is_word cs) of
           (p, ks) \<Rightarrow> (''([^/]+)'' @ p, takeWhile is_word cs # ks))
      else (case replace_params cs of (p, ks) \<Rightarrow> (c # p, ks)))"
  by pat_completeness auto
termination
  by (relation "measure length") (auto simp: less_Suc_eq_le length_dropWhile_le)

definition register ::
  "http_method \<Rightarrow> string \<Rightarrow> handler \<Rightarrow> string option \<Rightarrow> server \<Rightarrow> js_error + server" where
  "register m p h d srv =
     (case replace_params p of
        (replaced, keys) \<Rightarrow>
          (case RegExp (''^'' @ replaced @ ''/?$'') of
             Inl e \<Rightarrow> Inl e
           | Inr re \<Rightarrow>
               Inr (srv\<lparr>routes := routes srv @
                      [\<lparr>method = m, path = p, pathRegex = re, paramKeys = keys,
                        handler = h, docs = d\<rparr>]\<rparr>)))"

fun method_name :: "http_method \<Rightarrow> string" where
  "method_name GET = ''GET''"
| "method_name POST = ''POST''"
| "method_name PUT = ''PUT''"
| "method_name PATCH = ''PATCH''"
| "method_name DELETE = ''DELETE''"

text \<open>The test \<open>['GET', 'POST', 'PUT', 'PATCH', 'DELETE'].includes(method)\<close>.\<close>

definition method_of :: "string \<Rightarrow> http_method option" where
  "method_of s =
     (if s = ''GET'' then Some GET
      else if s = ''POST'' then Some POST
      else if s = ''PUT'' then Some PUT
      else if s = ''PATCH'' then Some PATCH
      else if s = ''DELETE'' then Some DELETE
      else None)"

definition strip_prefix :: "string \<Rightarrow> string \<Rightarrow> string option" where
  "strip_prefix p s = (if take (length p) s = p then Some (drop (length p) s) else None)"

text \<open>
  The match of the content against \<open>^<@!?ID>:api\s*(.*)$\<close>, for an identifier without
  syntax characters: the result is the text of the group. The dot matches no line
  terminator, so a content with one after the white space does not match.
\<close>

definition match_mention :: "string \<Rightarrow> string \<Rightarrow> string option" where
  "match_mention uid c =
     (case (case strip_prefix (''<@'' @ uid @ ''>:api'') c of
              Some r \<Rightarrow> Some r
            | None \<Rightarrow> strip_prefix (''<@!'' @ uid @ ''>:api'') c) of
        None \<Rightarrow> None
      | Some r \<Rightarrow>
          let g = dropWhile is_space r in
          if CHR 0x0A \<in> set g \<or> CHR 0x0D \<in> set g then None else Some g)"

definition error_body :: "string \<Rightarrow> js_any" where
  "error_body msg = Json (JObj [(''error'', JStr msg)])"

text \<open>The projection \<open>APIRouteInfo\<close> of a route; an undefined \<open>docs\<close> leaves no property.\<close>

definition route_info :: "route \<Rightarrow> json" where
  "route_info r =
     JObj ([(''method'', JStr (method_name (method r))), (''path'', JStr (path r))] @
           (case docs r of None \<Rightarrow> [] | Some d \<Rightarrow> [(''docs'', JStr d)]))"

text \<open>
  The steps of a handler, in order. The state is the number of refusals that have not
  arrived yet, the Response and the log.
\<close>

fun run_ops ::
  "transport \<Rightarrow> res_op list \<Rightarrow> nat \<times> response \<times> event list \<Rightarrow> outcome \<times> nat \<times> response \<times> event list" where
  "run_ops tr [] st = (Completed, st)"
| "run_ops tr (Status c # ops) st = run_ops tr ops (fst st, status c (fst (snd st)), snd (snd st))"
| "run_ops tr (SendJson d awaited # ops) st =
     (if awaited then
        (case json tr d (snd st) of
           (Completed, st') \<Rightarrow> run_ops tr ops (fst st, st')
         | (Raised e, st') \<Rightarrow> (Raised e, fst st, st'))
      else
        (case json_begin tr d (snd st) of
           (Refused, st') \<Rightarrow> run_ops tr ops (Suc (fst st), st')
         | (Done oc, st') \<Rightarrow> run_ops tr ops (fst st, st')))"
| "run_ops tr (Settle # ops) st =
     (case fst st of
        0 \<Rightarrow> run_ops tr ops st
      | Suc k \<Rightarrow> run_ops tr ops (k, snd (json_catch tr (snd st))))"

definition run_handler ::
  "transport \<Rightarrow> handler \<Rightarrow> request \<Rightarrow> nat \<times> response \<times> event list
     \<Rightarrow> outcome \<times> nat \<times> response \<times> event list" where
  "run_handler tr h req st =
     (case h req of
        (ops, ending) \<Rightarrow>
          (case run_ops tr ops st of
             (Raised e, st') \<Rightarrow> (Raised e, st')
           | (Completed, st') \<Rightarrow>
               (case ending of Returns \<Rightarrow> (Completed, st') | Throws \<Rightarrow> (Raised HandlerError, st'))))"

text \<open>
  The route of a matched request is served: the body is parsed, the handler is called
  with a fresh Response, and what it throws is caught. \<open>route\<close> is the decoded route of
  the request, which the log line names. The log is the one of the whole run: the
  refusals that have not arrived when the handler ends arrive after the server's own
  \<open>catch\<close> block has run. The server does not await the reply 500 it sends there; the
  call sets the final flag before anything else, so the \<open>catch\<close> blocks that run after
  it all do the same, whichever comes first.
\<close>

definition serve ::
  "transport \<Rightarrow> message \<Rightarrow> http_method \<Rightarrow> string \<Rightarrow> url \<Rightarrow> string \<Rightarrow> route \<Rightarrow> string list
     \<Rightarrow> outcome \<times> event list" where
  "serve tr msg m route u bodyString rt routeMatch =
     (let ps = fromEntries (zip (paramKeys rt) routeMatch) in
      case (if bodyString \<noteq> [] then JSON_parse bodyString else Inr JNull) of
        Inl e \<Rightarrow>
          if e = Unmodelled then (Raised Unmodelled, [])
          else (case json tr (error_body ''Invalid JSON body'') (status 400 new_response, []) of
                  (oc, r, log) \<Rightarrow> (oc, log))
      | Inr b \<Rightarrow>
          let req = \<lparr>authorId = author msg, req_method = m, req_path = pathname u,
                     params = ps, query = fromEntries (searchParams u), body = b\<rparr>
          in (case run_handler tr (handler rt) req (0, new_response, [Invoke (method rt) (path rt) req]) of
                (Completed, k, res, log) \<Rightarrow> (Completed, snd (settle tr k (res, log)))
              | (Raised err, k, res, log) \<Rightarrow>
                  let log1 = log @ [LogError (''[BotAPIServer] Error in handler for '' @
                                       method_name m @ '' '' @ route @ '':'')]
                  in if \<not> sentFinal res then
                       (case json tr (error_body ''Internal Server Error'') (status 500 res, log1) of
                          (oc, st2) \<Rightarrow> (Completed, snd (settle tr k st2)))
                     else (Completed, snd (settle tr k (res, log1)))))"

text \<open>The scan of the route table, and the reply 404 when it ends without a match.\<close>

fun dispatch ::
  "transport \<Rightarrow> message \<Rightarrow> http_method \<Rightarrow> string \<Rightarrow> url \<Rightarrow> string \<Rightarrow> route list
     \<Rightarrow> outcome \<times> event list" where
  "dispatch tr msg m route u bodyString [] =
     (case json tr (error_body (''Route not found: '' @ method_name m @ '' '' @ pathname u))
             (status 404 new_response, []) of
        (oc, r, log) \<Rightarrow> (Completed, log))"
| "dispatch tr msg m route u bodyString (registeredRoute # rest) =
     (if method registeredRoute \<noteq> m then dispatch tr msg m route u bodyString rest
      else (case rmatch (pathRegex registeredRoute) (pathname u) of
              None \<Rightarrow> dispatch tr msg m route u bodyString rest
            | Some routeMatch \<Rightarrow> serve tr msg m route u bodyString registeredRoute routeMatch))"

text \<open>
  The words of a command: the method in capitals, the route after
  \<open>decodeURIComponent\<close>, and the text of the body, which is the rest of the words joined
  by single spaces.
\<close>

definition parse_command :: "string \<Rightarrow> js_error + (string \<times> string \<times> string)" where
  "parse_command command =
     (let parts = split_ws command;
          rawRoute = (case tl parts of [] \<Rightarrow> ''/'' | r # _ \<Rightarrow> r);
          bodyString = join '' '' (drop 2 parts)
      in case toUpperCase (case parts of [] \<Rightarrow> [] | p # _ \<Rightarrow> p) of
           Inl e \<Rightarrow> Inl e
         | Inr method_str \<Rightarrow>
             (case decodeURIComponent rawRoute of
                Inl e \<Rightarrow> Inl e
              | Inr route \<Rightarrow> Inr (method_str, route, bodyString)))"

definition handleMessage :: "server \<Rightarrow> transport \<Rightarrow> message \<Rightarrow> outcome \<times> event list" where
  "handleMessage srv tr msg =
     (if author msg = user_id srv then (Completed, [])
      else if user_id srv \<notin> set (mentions msg) then (Completed, [])
      else if \<exists>c \<in> set (user_id srv). syntax_char c then (Raised Unmodelled, [])
      else (case match_mention (user_id srv) (content msg) of
        None \<Rightarrow> (Completed, [])
      | Some g \<Rightarrow>
          let command = trim g in
          if command = [] \<or> command = ''docs'' then
            (let e = ReplyFiles (docsString srv)
             in (if accepts tr [] e then Completed else Raised TransportError, [e]))
          else if command = ''routes'' then
            (let e = Reply 200 (stringify (JArr (map route_info (routes srv))))
             in (if accepts tr [] e then Completed else Raised TransportError, [e]))
          else
            (case parse_command command of
               Inl e \<Rightarrow> (Raised e, [])
             | Inr (method_str, route, bodyString) \<Rightarrow>
                 (case method_of method_str of
                    None \<Rightarrow>
                      (case json tr (error_body (''Invalid method '' @ [CHR 0x27] @ method_str @ [CHR 0x27]))
                              (status 400 new_response, []) of
                         (oc, r, log) \<Rightarrow> (oc, log))
                  | Some m \<Rightarrow>
                      (case URL_parse route of
                         Inl e \<Rightarrow> (Raised e, [])
                       | Inr u \<Rightarrow> dispatch tr msg m route u bodyString (routes srv))))))"

text \<open>
  A message that the server takes as addressed to it, with the command it carries.
\<close>

definition addressed :: "server \<Rightarrow> message \<Rightarrow> string \<Rightarrow> bool" where
  "addressed srv msg command =
     (author msg \<noteq> user_id srv \<and> user_id srv \<in> set (mentions msg) \<and>
      \<not> (\<exists>c \<in> set (user_id srv). syntax_char c) \<and>
      map_option trim (match_mention (user_id srv) (content msg)) = Some command)"

text \<open>A final reply is one with a status of 200 or more.\<close>

fun is_final_reply :: "event \<Rightarrow> bool" where
  "is_final_reply (Reply st b) = (200 \<le> st)"
| "is_final_reply _ = False"

text \<open>
  The number of final replies in a log never exceeds one, and is zero while the final
  flag of the Response is unset: \<open>json\<close> keeps this, and so do the calls of a handler.
\<close>

definition one_final :: "response \<times> event list \<Rightarrow> bool" where
  "one_final st = (length (filter is_final_reply (snd st)) \<le> (if sentFinal (fst st) then 1 else 0))"

section \<open>The client\<close>

text \<open>\<open>ClientResponse st b\<close> is the object \<open>{status, body}\<close>.\<close>

datatype client_response = ClientResponse int json

text \<open>
  A pending request. Its \<open>resolve\<close> and \<open>reject\<close> settle the promise of the call that
  made it; that promise and the timer of the call are both known by the number
  \<open>timeoutId\<close>, which \<open>makeRequest\<close> draws afresh for each call. \<open>onUpdate\<close>, when there
  is one, may return (\<open>Completed\<close>) or throw.
\<close>

record pending_request =
  onUpdate :: "(client_response \<Rightarrow> outcome) option"
  timeoutId :: nat

text \<open>
  An armed timer of the event loop: when it is due, and the message identifier and the
  delay that its callback holds.
\<close>

record timer =
  due :: nat
  timer_msg :: string
  timer_ms :: nat

text \<open>
  What the client does, in order: it sends a message, it resolves or rejects the
  promise of a call, it calls \<open>onUpdate\<close>.
\<close>

datatype client_event =
    Sent string
  | Resolved nat client_response
  | Rejected nat string
  | Updated nat client_response

record client =
  targetBotId :: string
  defaultTimeout :: nat
  pendingRequests :: "(string \<times> pending_request) list"
  timers :: "(nat \<times> timer) list"
  clock :: nat
  next_handle :: nat
  trace :: "client_event list"

definition new_client :: "string \<Rightarrow> nat \<Rightarrow> client" where
  "new_client target dflt =
     \<lparr>targetBotId = target, defaultTimeout = dflt, pendingRequests = [], timers = [],
      clock = 0, next_handle = 0, trace = []\<rparr>"

definition delete :: "'k \<Rightarrow> ('k \<times> 'v) list \<Rightarrow> ('k \<times> 'v) list" where
  "delete k m = filter (\<lambda>kv. fst kv \<noteq> k) m"

definition clearTimeout :: "nat \<Rightarrow> client \<Rightarrow> client" where
  "clearTimeout tid c = c\<lparr>timers := delete tid (timers c)\<rparr>"

definition emit :: "client_event \<Rightarrow> client \<Rightarrow> client" where
  "emit e c = c\<lparr>trace := trace c @ [e]\<rparr>"

definition handleReply :: "message \<Rightarrow> client \<Rightarrow> js_error + client" where
  "handleReply message c =
     (if author message \<noteq> targetBotId c then Inr c
      else (case reference message of
        None \<Rightarrow> Inr c
      | Some messageId \<Rightarrow>
          if messageId = [] then Inr c
          else (case map_of (pendingRequests c) messageId of
            None \<Rightarrow> Inr c
          | Some pending \<Rightarrow>
              (case indexOf_space (content message) of
                 None \<Rightarrow> Inr c
               | Some firstSpaceIndex \<Rightarrow>
                   let statusStr = take firstSpaceIndex (content message);
                       bodyStr = drop (firstSpaceIndex + 1) (content message)
                   in (case parseInt statusStr of
                     None \<Rightarrow> Inr c
                   | Some st \<Rightarrow>
                       (case JSON_parse bodyStr of
                          Inr b \<Rightarrow>
                            if st \<ge> 100 \<and> st < 200 then
                              (let c1 = clearTimeout (timeoutId pending) c in
                               case onUpdate pending of
                                 None \<Rightarrow> Inr c1
                               | Some f \<Rightarrow>
                                   (case f (ClientResponse st b) of
                                      Completed \<Rightarrow>
                                        Inr (emit (Updated (timeoutId pending) (ClientResponse st b)) c1)
                                    | Raised err \<Rightarrow>
                                        Inr (emit (Updated (timeoutId pending) (ClientResponse st b)) c1)))
                            else
                              Inr ((emit (Resolved (timeoutId pending) (ClientResponse st b))
                                      (clearTimeout (timeoutId pending) c))
                                    \<lparr>pendingRequests := delete messageId (pendingRequests c)\<rparr>)
                        | Inl err \<Rightarrow>
                            if err = Unmodelled then Inl Unmodelled
                            else if st \<ge> 200 then
                              Inr ((emit (Rejected (timeoutId pending) ''Malformed response: Invalid JSON body.'')
                                      (clearTimeout (timeoutId pending) c))
                                    \<lparr>pendingRequests := delete messageId (pendingRequests c)\<rparr>)
                            else Inr c))))))"

text \<open>The values that \<open>if (body)\<close> takes for true.\<close>

fun truthy :: "json \<Rightarrow> bool" where
  "truthy JNull = False"
| "truthy (JBool b) = b"
| "truthy (JNum i) = (i \<noteq> 0)"
| "truthy (JStr s) = (s \<noteq> [])"
| "truthy (JArr xs) = True"
| "truthy (JObj ms) = True"

definition truthy_any :: "js_any \<Rightarrow> bool" where
  "truthy_any d = (case d of Json v \<Rightarrow> truthy v | Unserializable \<Rightarrow> True)"

text \<open>
  The options of a call; \<open>None\<close> is a property that is absent (\<open>undefined\<close>).
\<close>

record request_options =
  opt_body :: "js_any option"
  opt_onUpdate :: "(client_response \<Rightarrow> outcome) option"
  opt_timeout :: "nat option"

text \<open>The text \<open>makeRequest\<close> sends.\<close>

definition requestString :: "string \<Rightarrow> http_method \<Rightarrow> string \<Rightarrow> js_any option \<Rightarrow> js_error + string" where
  "requestString target m route b =
     (let encodedRoute = encodeURIComponent route;
          s = ''<@'' @ target @ ''>:api '' @ method_name m @ '' '' @ encodedRoute
      in case b of
           None \<Rightarrow> Inr s
         | Some d \<Rightarrow>
             if truthy_any d then
               (case JSON_stringify d of Inl e \<Rightarrow> Inl e | Inr t \<Rightarrow> Inr (s @ '' '' @ t))
             else Inr s)"

text \<open>
  \<open>setTimeout\<close> of Node.js: a delay below 1 or above \<open>2^31 - 1\<close> milliseconds is taken
  as 1.
\<close>

definition timer_delay :: "nat \<Rightarrow> nat" where
  "timer_delay ms = (if ms < 1 \<or> ms > 2147483647 then 1 else ms)"

text \<open>
  \<open>makeRequest\<close>, with the answer of the transport to \<open>send\<close>: \<open>Some id\<close> is the
  identifier of the message it posted, \<open>None\<close> a rejection. The call is taken as one
  step: nothing else runs between the send and the registration of the pending request.
\<close>

definition makeRequest ::
  "http_method \<Rightarrow> string \<Rightarrow> request_options \<Rightarrow> string option \<Rightarrow> client \<Rightarrow> client" where
  "makeRequest m route options sent c =
     (let n = next_handle c;
          c0 = c\<lparr>next_handle := Suc n\<rparr>;
          timeout = (case opt_timeout options of None \<Rightarrow> defaultTimeout c | Some t \<Rightarrow> t)
      in case requestString (targetBotId c) m route (opt_body options) of
           Inl e \<Rightarrow> emit (Rejected n ''JSON.stringify failed'') c0
         | Inr s \<Rightarrow>
             (case sent of
                None \<Rightarrow> emit (Rejected n ''send failed'') (emit (Sent s) c0)
              | Some requestMessageId \<Rightarrow>
                  (emit (Sent s) c0)
                    \<lparr>timers := timers c0 @
                       [(n, \<lparr>due = clock c0 + timer_delay timeout,
                              timer_msg = requestMessageId, timer_ms = timeout\<rparr>)],
                     pendingRequests :=
                       put requestMessageId \<lparr>onUpdate = opt_onUpdate options, timeoutId = n\<rparr>
                         (pendingRequests c0)\<rparr>))"

text \<open>The callback of the timer \<open>tid\<close> runs, if the timer is still armed.\<close>

definition fire :: "nat \<Rightarrow> client \<Rightarrow> client" where
  "fire tid c =
     (case map_of (timers c) tid of
        None \<Rightarrow> c
      | Some t \<Rightarrow>
          emit (Rejected tid (''Request timed out after '' @ show_nat (timer_ms t) @
                               ''ms waiting for an initial response.''))
            (c\<lparr>timers := delete tid (timers c),
               pendingRequests := delete (timer_msg t) (pendingRequests c)\<rparr>))"

text \<open>
  Time passes: the clock advances by \<open>d\<close> milliseconds and the timers that are due
  fire, the earliest first.
\<close>

definition elapse :: "nat \<Rightarrow> client \<Rightarrow> client" where
  "elapse d c =
     (let now = clock c + d;
          ready = sort_key (\<lambda>kt. due (snd kt)) (filter (\<lambda>kt. due (snd kt) \<le> now) (timers c))
      in foldl (\<lambda>c' kt. fire (fst kt) c') (c\<lparr>clock := now\<rparr>) ready)"

text \<open>What can happen to a client, and a run of such happenings.\<close>

datatype input =
    Receive message
  | Elapse nat
  | Request http_method string request_options "string option"

fun step :: "input \<Rightarrow> client \<Rightarrow> js_error + client" where
  "step (Receive message) c = handleReply message c"
| "step (Elapse d) c = Inr (elapse d c)"
| "step (Request m route options sent) c = Inr (makeRequest m route options sent c)"

fun run_inputs :: "input list \<Rightarrow> client \<Rightarrow> js_error + client" where
  "run_inputs [] c = Inr c"
| "run_inputs (x # xs) c = (case step x c of Inl e \<Rightarrow> Inl e | Inr c' \<Rightarrow> run_inputs xs c')"

text \<open>
  The conditions of a call that is still waiting, as they hold after \<open>makeRequest\<close>: the
  entry \<open>p\<close> is registered under the identifier \<open>mid\<close> of the request message, its
  handle has been drawn, no other entry has that handle, no timer but its own holds
  \<open>mid\<close>, and its promise has not been settled.
\<close>

fun settles :: "nat \<Rightarrow> client_event \<Rightarrow> bool" where
  "settles n (Resolved k r) = (k = n)"
| "settles n (Rejected k s) = (k = n)"
| "settles n (Sent s) = False"
| "settles n (Updated k r) = False"

definition live_call :: "client \<Rightarrow> string \<Rightarrow> pending_request \<Rightarrow> bool" where
  "live_call c mid p =
     (map_of (pendingRequests c) mid = Some p \<and>
      timeoutId p < next_handle c \<and>
      (\<forall>kt \<in> set (timers c). timer_msg (snd kt) = mid \<longrightarrow> fst kt = timeoutId p) \<and>
      (\<forall>kq \<in> set (pendingRequests c). fst kq \<noteq> mid \<longrightarrow> timeoutId (snd kq) \<noteq> timeoutId p) \<and>
      (\<forall>e \<in> set (trace c). \<not> settles (timeoutId p) e))"

text \<open>A waiting call whose timer is not armed.\<close>

definition disarmed :: "client \<Rightarrow> string \<Rightarrow> pending_request \<Rightarrow> bool" where
  "disarmed c mid p = (live_call c mid p \<and> map_of (timers c) (timeoutId p) = None)"

text \<open>
  The text of a reply that does not end a call: it has no space, or no status, or a
  status below 200 that is either an intermediate one or comes with a body that does
  not parse.
\<close>

definition keeps_alive :: "string \<Rightarrow> bool" where
  "keeps_alive text =
     (case indexOf_space text of
        None \<Rightarrow> True
      | Some i \<Rightarrow>
          (case parseInt (take i text) of
             None \<Rightarrow> True
           | Some st \<Rightarrow> st < 200 \<and> (100 \<le> st \<or> JSON_parse (drop (i + 1) text) = Inl SyntaxError)))"

text \<open>
  What may happen while the call \<open>mid\<close> waits for its final reply: time passes, other
  calls are made (the transport gives their messages other identifiers), replies to
  other calls arrive, and replies to this call that do not end it.
\<close>

fun quiet :: "string \<Rightarrow> string \<Rightarrow> input \<Rightarrow> bool" where
  "quiet target mid (Receive msg) =
     (author msg \<noteq> target \<or> reference msg \<noteq> Some mid \<or> keeps_alive (content msg))"
| "quiet target mid (Elapse d) = True"
| "quiet target mid (Request m route options sent) = (sent \<noteq> Some mid)"

text \<open>
  A client for the examples: one call has been made, its request went out as the
  message \<open>m1\<close>, and nothing has come back yet.
\<close>

definition no_options :: request_options where
  "no_options = \<lparr>opt_body = None, opt_onUpdate = None, opt_timeout = None\<rparr>"

definition waiting_client :: client where
  "waiting_client = makeRequest GET ''/a'' no_options (Some ''m1'') (new_client ''42'' 15000)"

definition reply_to :: "string \<Rightarrow> string \<Rightarrow> message" where
  "reply_to mid text =
     \<lparr>msg_id = ''r1'', author = ''42'', mentions = [], content = text, reference = Some mid\<rparr>"

text \<open>
  A server for the examples, with the route of the README and three routes whose
  handlers throw: one before any reply, one after a final reply, one after a call of
  \<open>json\<close> on a value that cannot be serialized.
\<close>

definition balance_handler :: handler where
  "balance_handler req =
     ([Status 200, SendJson (Json (JObj [(''amount'', JNum 50000000)])) False], Returns)"

definition crashing_handler :: handler where
  "crashing_handler req = ([], Throws)"

definition late_crashing_handler :: handler where
  "late_crashing_handler req = ([SendJson (Json JNull) True], Throws)"

definition unserializable_handler :: handler where
  "unserializable_handler req = ([SendJson Unserializable True], Throws)"

text \<open>
  Two handlers that do not await \<open>json\<close>: \<open>res.status(100).json(null)\<close> and then a
  throw, and the same call followed by \<open>res.status(200).json(true)\<close> and a return.
\<close>

definition dropped_reply_handler :: handler where
  "dropped_reply_handler req = ([Status 100, SendJson (Json JNull) False], Throws)"

definition dropped_then_final_handler :: handler where
  "dropped_then_final_handler req =
     ([Status 100, SendJson (Json JNull) False, Status 200, SendJson (Json (JBool True)) False], Returns)"

definition balance_route :: route where
  "balance_route =
     \<lparr>method = GET, path = ''/balance/:userId'',
      pathRegex = map (\<lambda>c. Chr (Lit c) One) ''/balance/'' @ [Group, Chr (Lit (CHR ''/'')) Opt],
      paramKeys = [''userId''], handler = balance_handler,
      docs = Some ''Get the balance of a user by their ID''\<rparr>"

definition plain_route :: "http_method \<Rightarrow> string \<Rightarrow> handler \<Rightarrow> route" where
  "plain_route m p h =
     \<lparr>method = m, path = p,
      pathRegex = map (\<lambda>c. Chr (Lit c) One) p @ [Chr (Lit (CHR ''/'')) Opt],
      paramKeys = [], handler = h, docs = None\<rparr>"

definition demo_server :: server where
  "demo_server =
     \<lparr>user_id = ''42'', docsString = ''Amazing Bot Docs'',
      routes = [balance_route, plain_route POST ''/crash'' crashing_handler,
                plain_route POST ''/late'' late_crashing_handler,
                plain_route POST ''/bigint'' unserializable_handler]\<rparr>"

text \<open>
  Route templates as the specification describes them: a template is a sequence of
  segments, each after a slash, and a segment is either literal text or a named
  parameter, written with a colon before its name. A path satisfies a template when it
  is the template with a value in the place of each parameter.
\<close>

datatype segment = Literal string | Param string

fun template_text :: "segment list \<Rightarrow> string" where
  "template_text [] = []"
| "template_text (Literal t # segs) = CHR ''/'' # t @ template_text segs"
| "template_text (Param n # segs) = CHR ''/'' # CHR '':'' # n @ template_text segs"

fun param_names :: "segment list \<Rightarrow> string list" where
  "param_names [] = []"
| "param_names (Literal t # segs) = param_names segs"
| "param_names (Param n # segs) = n # param_names segs"

fun instantiate :: "segment list \<Rightarrow> string list \<Rightarrow> string" where
  "instantiate [] vs = []"
| "instantiate (Literal t # segs) vs = CHR ''/'' # t @ instantiate segs vs"
| "instantiate (Param n # segs) [] = CHR ''/'' # instantiate segs []"
| "instantiate (Param n # segs) (v # vs) = CHR ''/'' # v @ instantiate segs vs"

text \<open>
  The templates on which the code does what the specification says: the literal text
  has no slash, no colon and no syntax character of regular expressions other than the
  dot, and the name of a parameter is a non-empty run of word characters.
\<close>

definition plain_char :: "char \<Rightarrow> bool" where
  "plain_char c = ((\<not> syntax_char c \<or> c = CHR ''.'') \<and> c \<noteq> CHR ''/'' \<and> c \<noteq> CHR '':'')"

fun plain_segment :: "segment \<Rightarrow> bool" where
  "plain_segment (Literal t) = list_all plain_char t"
| "plain_segment (Param n) = (n \<noteq> [] \<and> list_all is_word n)"

text \<open>The source of the pattern after the replacement of the parameters.\<close>

fun pattern_text :: "segment list \<Rightarrow> string" where
  "pattern_text [] = []"
| "pattern_text (Literal t # segs) = CHR ''/'' # t @ pattern_text segs"
| "pattern_text (Param n # segs) = CHR ''/'' # ''([^/]+)'' @ pattern_text segs"

text \<open>The regular expression that \<open>register\<close> compiles for such a template.\<close>

definition literal_item :: "char \<Rightarrow> item" where
  "literal_item c = Chr (if c = CHR ''.'' then Dot else Lit c) One"

fun segment_items :: "segment \<Rightarrow> item list" where
  "segment_items (Literal t) = Chr (Lit (CHR ''/'')) One # map literal_item t"
| "segment_items (Param n) = [Chr (Lit (CHR ''/'')) One, Group]"

definition template_regex :: "segment list \<Rightarrow> item list" where
  "template_regex segs = concat (map segment_items segs) @ [Chr (Lit (CHR ''/'')) Opt]"

text \<open>A server for the examples whose one route has a \<open>+\<close> in its template.\<close>

definition plus_server :: server where
  "plus_server =
     \<lparr>user_id = ''42'', docsString = [],
      routes = [\<lparr>method = GET, path = ''/a+b'',
                 pathRegex = [Chr (Lit (CHR ''/'')) One, Chr (Lit (CHR ''a'')) Plus,
                              Chr (Lit (CHR ''b'')) One, Chr (Lit (CHR ''/'')) Opt],
                 paramKeys = [], handler = balance_handler, docs = None\<rparr>]\<rparr>"

text \<open>A message of another user that mentions the server and carries \<open>command\<close>.\<close>

definition ask :: "string \<Rightarrow> message" where
  "ask command =
     \<lparr>msg_id = ''m1'', author = ''7'', mentions = [''42''],
      content = ''<@42>:api '' @ command, reference = None\<rparr>"













section \<open>Properties of the Response object\<close>

lemma statusCode_status [simp]: "statusCode (status c r) = c"
  by (simp add: status_def)

lemma sentFinal_status [simp]: "sentFinal (status c r) = sentFinal r"
  by (simp add: status_def)



lemma json_catch_after_final:
  "sentFinal r \<Longrightarrow>
   json_catch tr (r, log) = (Completed, r, log @ [LogError ''Failed to send API response:''])"
  by (simp add: json_catch_def)


text \<open>An awaited call is the call up to its \<open>await\<close>, and then its \<open>catch\<close> block if the reply is refused.\<close>

lemma json_begin_json:
  "json tr d st =
     (case json_begin tr d st of
        (Done oc, st') \<Rightarrow> (oc, st')
      | (Refused, st') \<Rightarrow> json_catch tr st')"
  by (cases st; cases "JSON_stringify d")
    (auto simp: json_def json_begin_def Let_def split: prod.splits)








lemma settle_after_final:
  "sentFinal r \<Longrightarrow>
   settle tr k (r, log) = (r, log @ replicate k (LogError ''Failed to send API response:''))"
proof (induction k arbitrary: log)
  case 0
  then show ?case by simp
next
  case (Suc k)
  show ?case
    using Suc.IH [OF Suc.prems, of "log @ [LogError ''Failed to send API response:'']"] Suc.prems
    by (simp add: json_catch_after_final replicate_app_Cons_same)
qed






section \<open>Properties of the server\<close>

lemma handleMessage_addressed:
  "addressed srv msg command \<Longrightarrow>
   handleMessage srv tr msg =
     (if command = [] \<or> command = ''docs'' then
        (if accepts tr [] (ReplyFiles (docsString srv)) then Completed else Raised TransportError,
         [ReplyFiles (docsString srv)])
      else if command = ''routes'' then
        (if accepts tr [] (Reply 200 (stringify (JArr (map route_info (routes srv)))))
         then Completed else Raised TransportError,
         [Reply 200 (stringify (JArr (map route_info (routes srv))))])
      else
        (case parse_command command of
           Inl e \<Rightarrow> (Raised e, [])
         | Inr (method_str, route, bodyString) \<Rightarrow>
             (case method_of method_str of
                None \<Rightarrow>
                  (case json tr (error_body (''Invalid method '' @ [CHR 0x27] @ method_str @ [CHR 0x27]))
                          (status 400 new_response, []) of
                     (oc, r, log) \<Rightarrow> (oc, log))
              | Some m \<Rightarrow>
                  (case URL_parse route of
                     Inl e \<Rightarrow> (Raised e, [])
                   | Inr u \<Rightarrow> dispatch tr msg m route u bodyString (routes srv)))))"
  unfolding addressed_def handleMessage_def
  by (cases "match_mention (user_id srv) (content msg)") (auto simp: Let_def)

lemma trim_id: "s \<noteq> [] \<Longrightarrow> \<not> is_space (hd s) \<Longrightarrow> \<not> is_space (last s) \<Longrightarrow> trim s = s"
proof -
  assume a: "s \<noteq> []" "\<not> is_space (hd s)" "\<not> is_space (last s)"
  have 1: "dropWhile is_space s = s"
    using a by (simp add: dropWhile_eq_self_iff)
  have "\<not> is_space (hd (rev s))"
    using a by (simp add: hd_rev)
  then have 2: "dropWhile is_space (rev s) = rev s"
    by (simp add: dropWhile_eq_self_iff)
  show ?thesis
    by (simp add: trim_def 1 2)
qed

lemma addressed_ask:
  assumes "s \<noteq> []" and "\<not> is_space (hd s)" and "\<not> is_space (last s)"
    and "CHR 0x0A \<notin> set s" and "CHR 0x0D \<notin> set s"
  shows "addressed demo_server (ask s) s"
proof -
  have d: "dropWhile is_space s = s"
    using assms by (simp add: dropWhile_eq_self_iff)
  have "strip_prefix ''<@42>:api'' (''<@42>:api '' @ s) = Some (CHR '' '' # s)"
    by (simp add: strip_prefix_def)
  then have m: "match_mention ''42'' (''<@42>:api '' @ s) = Some s"
    using assms d by (simp add: match_mention_def is_space_def)
  show ?thesis
    using m trim_id [OF assms(1-3)]
    by (simp add: addressed_def demo_server_def ask_def syntax_char_def)
qed

lemma show_int_200: "show_int 200 = ''200''" by code_simp
lemma show_int_400: "show_int 400 = ''400''" by code_simp
lemma show_int_404: "show_int 404 = ''404''" by code_simp
lemma show_int_500: "show_int 500 = ''500''" by code_simp

lemma route_info_handler [simp]: "route_info (r\<lparr>handler := h\<rparr>) = route_info r"
  by (simp add: route_info_def)

lemma addressed_routes [simp]:
  "addressed (srv\<lparr>routes := rs\<rparr>) msg command = addressed srv msg command"
  by (simp add: addressed_def)

text \<open>A first call of \<open>json\<close> on a fresh Response with a status of 200 or more.\<close>

lemma json_fresh:
  "200 \<le> c \<Longrightarrow>
   json tr (Json v) (status c new_response, []) =
     (Completed, \<lparr>statusCode = c, sentFinal = True\<rparr>,
      Reply c (stringify v) #
        (if accepts tr [] (Reply c (stringify v)) then [] else [LogError ''Failed to send API response:'']))"
  by (simp add: json_def json_catch_def JSON_stringify_def status_def new_response_def Let_def)

text \<open>
  Claim C9. Whatever routes the server holds, its answer to the command \<open>routes\<close> is one
  reply: the status 200 and the JSON array of the projections of the routes, in the
  order of the route table. \<open>register\<close> appends to that table, so this is the order of
  registration; a projection has the method, the path and, when there is one, the
  documentation, and the reply is the same whatever the handlers are.
\<close>

theorem routes_listing:
  assumes "addressed srv msg ''routes''"
  shows "snd (handleMessage srv tr msg) = [Reply 200 (stringify (JArr (map route_info (routes srv))))]
       \<and> wire_text (Reply 200 (stringify (JArr (map route_info (routes srv))))) =
           ''200 '' @ stringify (JArr (map route_info (routes srv)))
       \<and> handleMessage (srv\<lparr>routes := map (\<lambda>r. r\<lparr>handler := h\<rparr>) (routes srv)\<rparr>) tr msg =
           handleMessage srv tr msg
       \<and> (register m p h' d srv = Inr srv' \<longrightarrow>
            map route_info (routes srv') =
              map route_info (routes srv) @
                [JObj ([(''method'', JStr (method_name m)), (''path'', JStr p)] @
                       (case d of None \<Rightarrow> [] | Some t \<Rightarrow> [(''docs'', JStr t)]))])"
proof -
  have a: "addressed (srv\<lparr>routes := map (\<lambda>r. r\<lparr>handler := h\<rparr>) (routes srv)\<rparr>) msg ''routes''"
    using assms by simp
  have "register m p h' d srv = Inr srv' \<longrightarrow>
            map route_info (routes srv') =
              map route_info (routes srv) @
                [JObj ([(''method'', JStr (method_name m)), (''path'', JStr p)] @
                       (case d of None \<Rightarrow> [] | Some t \<Rightarrow> [(''docs'', JStr t)]))]"
    by (auto simp: register_def route_info_def split: prod.splits sum.splits)
  then show ?thesis
    using assms by (simp add: handleMessage_addressed [OF assms] handleMessage_addressed [OF a]
        wire_text_def show_int_200 comp_def)
qed

text \<open>The listing of a server with two routes, the first with documentation.\<close>

theorem routes_listing_witness:
  \<open>snd (handleMessage (demo_server\<lparr>routes := [balance_route, plain_route POST ''/crash'' crashing_handler]\<rparr>)
          accept_all (ask ''routes'')) =
     [Reply 200 ''[{"method":"GET","path":"/balance/:userId","docs":"Get the balance of a user by their ID"},{"method":"POST","path":"/crash"}]'']\<close>
proof -
  let ?srv = "demo_server\<lparr>routes := [balance_route, plain_route POST ''/crash'' crashing_handler]\<rparr>"
  have a: "addressed ?srv (ask ''routes'') ''routes''"
    using addressed_ask [of "''routes''"] by (simp add: is_space_def)
  have s: \<open>stringify (JArr (map route_info (routes ?srv))) =
      ''[{"method":"GET","path":"/balance/:userId","docs":"Get the balance of a user by their ID"},{"method":"POST","path":"/crash"}]''\<close>
    unfolding demo_server_def balance_route_def plain_route_def route_info_def by simp code_simp
  from routes_listing [OF a, of accept_all] show ?thesis
    unfolding s by simp
qed

lemma dispatch_bad_body:
  assumes "\<exists>rt \<in> set rs. method rt = m \<and> rmatch (pathRegex rt) (pathname u) \<noteq> None"
    and "bodyString \<noteq> []" and "JSON_parse bodyString = Inl SyntaxError"
  shows "dispatch tr msg m route u bodyString rs =
           (case json tr (error_body ''Invalid JSON body'') (status 400 new_response, []) of
              (oc, r, log) \<Rightarrow> (oc, log))"
  using assms
proof (induction rs)
  case Nil
  then show ?case by simp
next
  case (Cons rt rs)
  show ?case
  proof (cases "method rt = m \<and> rmatch (pathRegex rt) (pathname u) \<noteq> None")
    case True
    then show ?thesis using Cons.prems by (auto simp: serve_def)
  next
    case False
    then have "\<exists>rt \<in> set rs. method rt = m \<and> rmatch (pathRegex rt) (pathname u) \<noteq> None"
      using Cons.prems(1) by auto
    from Cons.IH [OF this Cons.prems(2,3)] show ?thesis using False by auto
  qed
qed

lemma invalid_json_text:
  \<open>stringify (JObj [(''error'', JStr ''Invalid JSON body'')]) = ''{"error":"Invalid JSON body"}''\<close>
  by code_simp

text \<open>
  Claim C4. A request whose method and path match a registered route and whose body
  text is not empty and does not parse as JSON is answered by the one reply
  \<open>400 {"error":"Invalid JSON body"}\<close>; the events of the run are that reply (and the
  log line of \<open>json\<close> if the transport refuses it), so no handler is called.
\<close>

theorem invalid_json_body:
  assumes "addressed srv msg command"
    and "command \<noteq> []" and "command \<noteq> ''docs''" and "command \<noteq> ''routes''"
    and "parse_command command = Inr (method_str, route, bodyString)"
    and "method_of method_str = Some m"
    and "URL_parse route = Inr u"
    and "\<exists>rt \<in> set (routes srv). method rt = m \<and> rmatch (pathRegex rt) (pathname u) \<noteq> None"
    and "bodyString \<noteq> []"
    and "JSON_parse bodyString = Inl SyntaxError"
  shows \<open>snd (handleMessage srv tr msg) =
            Reply 400 ''{"error":"Invalid JSON body"}'' #
              (if accepts tr [] (Reply 400 ''{"error":"Invalid JSON body"}'') then []
               else [LogError ''Failed to send API response:''])
         \<and> wire_text (Reply 400 ''{"error":"Invalid JSON body"}'') = ''400 {"error":"Invalid JSON body"}''\<close>
proof -
  have "handleMessage srv tr msg = dispatch tr msg m route u bodyString (routes srv)"
    using assms(2-7) by (simp add: handleMessage_addressed [OF assms(1)])
  also have "\<dots> = (case json tr (error_body ''Invalid JSON body'') (status 400 new_response, []) of
              (oc, r, log) \<Rightarrow> (oc, log))"
    by (rule dispatch_bad_body [OF assms(8-10)])
  finally show ?thesis
    by (simp add: error_body_def json_fresh invalid_json_text wire_text_def show_int_400
        del: stringify.simps)
qed

text \<open>The example of the specification: the body \<open>not-json\<close> for a POST route.\<close>

theorem invalid_json_body_witness:
  \<open>snd (handleMessage demo_server accept_all (ask ''POST /crash not-json'')) =
     [Reply 400 ''{"error":"Invalid JSON body"}'']\<close>
proof -
  have a: "addressed demo_server (ask ''POST /crash not-json'') ''POST /crash not-json''"
    using addressed_ask [of "''POST /crash not-json''"] by (simp add: is_space_def)
  have p: "parse_command ''POST /crash not-json'' = Inr (''POST'', ''/crash'', ''not-json'')"
    by code_simp
  have m: "method_of ''POST'' = Some POST"
    by (simp add: method_of_def)
  have u: "URL_parse ''/crash'' = Inr \<lparr>pathname = ''/crash'', searchParams = []\<rparr>"
    by code_simp
  have "rmatch (pathRegex (plain_route POST ''/crash'' crashing_handler)) ''/crash'' = Some []"
    by code_simp
  then have r: "\<exists>rt \<in> set (routes demo_server). method rt = POST \<and>
      rmatch (pathRegex rt) (pathname \<lparr>pathname = ''/crash'', searchParams = []\<rparr>) \<noteq> None"
    by (simp add: demo_server_def plain_route_def)
  have j: "JSON_parse ''not-json'' = Inl SyntaxError"
    by code_simp
  from invalid_json_body [OF a _ _ _ p m u r _ j, of accept_all] show ?thesis
    by (simp add: accepts_def accept_all_def)
qed

text \<open>
  A command whose first word is not a method, and whose second word is decoded by
  \<open>decodeURIComponent\<close>, is answered by the reply 400 that names the word; the route
  table has no part in it.
\<close>

lemma invalid_method_reply:
  assumes "addressed srv msg command"
    and "command \<noteq> []" and "command \<noteq> ''docs''" and "command \<noteq> ''routes''"
    and "parse_command command = Inr (method_str, route, bodyString)"
    and "method_of method_str = None"
  shows "snd (handleMessage srv tr msg) =
            Reply 400 (stringify (JObj [(''error'', JStr (''Invalid method '' @ [CHR 0x27] @ method_str @ [CHR 0x27]))])) #
              (if accepts tr [] (Reply 400 (stringify (JObj [(''error'',
                     JStr (''Invalid method '' @ [CHR 0x27] @ method_str @ [CHR 0x27]))])))
               then [] else [LogError ''Failed to send API response:''])
         \<and> handleMessage (srv\<lparr>routes := rs\<rparr>) tr msg = handleMessage srv tr msg"
proof -
  have a: "addressed (srv\<lparr>routes := rs\<rparr>) msg command"
    using assms(1) by simp
  show ?thesis
    using assms(2-6)
    by (simp add: handleMessage_addressed [OF assms(1)] handleMessage_addressed [OF a]
        error_body_def json_fresh del: stringify.simps)
qed

text \<open>
  Claim C3 at the command \<open>FOO %\<close>. The word \<open>FOO\<close> is not a method, but
  \<open>decodeURIComponent\<close> runs before the test of the method and throws on \<open>%\<close>: the server
  sends no reply at all.
\<close>

theorem invalid_method_malformed_route:
  "method_of ''FOO'' = None \<and>
   handleMessage demo_server accept_all (ask ''FOO %'') = (Raised URIError, [])"
proof -
  have a: "addressed demo_server (ask ''FOO %'') ''FOO %''"
    using addressed_ask [of "''FOO %''"] by (simp add: is_space_def)
  have p: "parse_command ''FOO %'' = Inl URIError"
    by code_simp
  show ?thesis
    by (simp add: handleMessage_addressed [OF a] p method_of_def)
qed

lemma json_catch_one_final:
  assumes "one_final st"
  shows "one_final (snd (json_catch tr st))"
proof -
  obtain r log where st: "st = (r, log)" by (cases st)
  show ?thesis
    using assms unfolding st
    by (auto simp: one_final_def json_catch_def Let_def split: if_splits)
qed

lemma json_begin_one_final:
  assumes "one_final st"
  shows "one_final (snd (json_begin tr d st))"
proof -
  obtain r log where st: "st = (r, log)" by (cases st)
  show ?thesis
    using assms unfolding st
    by (cases "JSON_stringify d")
      (auto simp: one_final_def json_begin_def json_catch_def Let_def split: if_splits)
qed

lemma json_one_final:
  assumes "one_final st"
  shows "one_final (snd (json tr d st))"
proof -
  obtain p st' where b: "json_begin tr d st = (p, st')" by (cases "json_begin tr d st")
  have o: "one_final st'" using json_begin_one_final [OF assms, of tr d] b by simp
  show ?thesis
    using o json_catch_one_final [OF o, of tr]
    by (cases p) (simp_all add: json_begin_json b)
qed

lemma settle_one_final: "one_final st \<Longrightarrow> one_final (settle tr k st)"
  by (induction k arbitrary: st) (simp_all add: json_catch_one_final)

lemma run_ops_one_final:
  "one_final (snd st) \<Longrightarrow> one_final (snd (snd (run_ops tr ops st)))"
proof (induction ops arbitrary: st)
  case Nil
  then show ?case by simp
next
  case (Cons op ops)
  show ?case
  proof (cases op)
    case (Status c)
    have "one_final (snd (fst st, status c (fst (snd st)), snd (snd st)))"
      using Cons.prems by (simp add: one_final_def)
    from Cons.IH [OF this] show ?thesis using Status by simp
  next
    case (SendJson d aw)
    show ?thesis
    proof (cases aw)
      case True
      obtain oc st' where e: "json tr d (snd st) = (oc, st')" by (cases "json tr d (snd st)")
      have o: "one_final (snd (fst st, st'))"
        using json_one_final [OF Cons.prems, of tr d] e by simp
      from Cons.IH [OF this] o show ?thesis
        using SendJson True e by (cases oc) auto
    next
      case False
      obtain p st' where e: "json_begin tr d (snd st) = (p, st')" by (cases "json_begin tr d (snd st)")
      have o: "one_final st'"
        using json_begin_one_final [OF Cons.prems, of tr d] e by simp
      then have "one_final (snd (fst st, st'))" "one_final (snd (Suc (fst st), st'))" by simp_all
      from Cons.IH [OF this(1)] Cons.IH [OF this(2)] show ?thesis
        using SendJson False e by (cases p) auto
    qed
  next
    case Settle
    show ?thesis
    proof (cases "fst st")
      case 0
      from Cons.IH [OF Cons.prems] show ?thesis using Settle 0 by simp
    next
      case (Suc j)
      have "one_final (snd (j, snd (json_catch tr (snd st))))"
        using json_catch_one_final [OF Cons.prems, of tr] by simp
      from Cons.IH [OF this] show ?thesis using Settle Suc by simp
    qed
  qed
qed

lemma run_handler_one_final:
  "one_final (snd st) \<Longrightarrow> one_final (snd (snd (run_handler tr h req st)))"
proof -
  assume a: "one_final (snd st)"
  obtain ops ending where h: "h req = (ops, ending)" by (cases "h req")
  obtain oc st' where r: "run_ops tr ops st = (oc, st')" by (cases "run_ops tr ops st")
  have "one_final (snd st')" using run_ops_one_final [OF a, of tr ops] r by simp
  then show ?thesis
    by (cases oc; cases ending) (simp_all add: run_handler_def h r)
qed

lemma serve_one_final:
  "length (filter is_final_reply (snd (serve tr msg m route u bodyString rt routeMatch))) \<le> 1"
proof (cases "if bodyString \<noteq> [] then JSON_parse bodyString else Inr JNull")
  case (Inl e)
  then show ?thesis
    by (auto simp: serve_def error_body_def json_fresh split: if_splits simp del: stringify.simps)
next
  case (Inr b)
  let ?req = "\<lparr>authorId = author msg, req_method = m, req_path = pathname u,
                params = fromEntries (zip (paramKeys rt) routeMatch),
                query = fromEntries (searchParams u), body = b\<rparr>"
  let ?st0 = "(0::nat, new_response, [Invoke (method rt) (path rt) ?req])"
  have "one_final (snd ?st0)" by (simp add: one_final_def)
  from run_handler_one_final [OF this, of tr "handler rt" ?req]
  have h: "one_final (snd (snd (run_handler tr (handler rt) ?req ?st0)))" .
  obtain oc k res log where r: "run_handler tr (handler rt) ?req ?st0 = (oc, k, res, log)"
    by (cases "run_handler tr (handler rt) ?req ?st0") auto
  have f: "one_final (res, log)" using h r by simp
  have bound: "one_final st \<Longrightarrow> length (filter is_final_reply (snd (settle tr k st))) \<le> 1" for st
    using settle_one_final [of st tr k] by (simp add: one_final_def split: if_splits)
  show ?thesis
  proof (cases oc)
    case Completed
    then show ?thesis using Inr r bound [OF f]
      by (simp add: serve_def Let_def)
  next
    case (Raised err)
    let ?log1 = "log @ [LogError (''[BotAPIServer] Error in handler for '' @ method_name m @ '' '' @ route @ '':'')]"
    have f1: "one_final (res, ?log1)" using f by (simp add: one_final_def)
    have "one_final (status 500 res, ?log1)" using f by (simp add: one_final_def)
    from json_one_final [OF this, of tr "error_body ''Internal Server Error''"]
    have j: "one_final (snd (json tr (error_body ''Internal Server Error'') (status 500 res, ?log1)))" .
    obtain oc2 st2 where e: "json tr (error_body ''Internal Server Error'') (status 500 res, ?log1) = (oc2, st2)"
      by (cases "json tr (error_body ''Internal Server Error'') (status 500 res, ?log1)")
    have "one_final st2" using j e by simp
    from bound [OF this] bound [OF f1] show ?thesis using Inr r Raised e
      by (simp add: serve_def Let_def)
  qed
qed

lemma dispatch_one_final:
  "length (filter is_final_reply (snd (dispatch tr msg m route u bodyString rs))) \<le> 1"
proof (induction rs)
  case Nil
  show ?case
    by (simp add: error_body_def json_fresh del: stringify.simps)
next
  case (Cons rt rs)
  then show ?case
    using serve_one_final [of tr msg m route u bodyString rt]
    by (auto split: option.splits)
qed

text \<open>No run of \<open>handleMessage\<close> emits more than one final reply.\<close>

lemma handleMessage_one_final:
  "length (filter is_final_reply (snd (handleMessage srv tr msg))) \<le> 1"
  unfolding handleMessage_def
  by (auto simp: Let_def error_body_def json_fresh dispatch_one_final [simplified]
      split: option.splits sum.splits prod.splits simp del: stringify.simps)

lemma internal_error_text:
  \<open>stringify (JObj [(''error'', JStr ''Internal Server Error'')]) = ''{"error":"Internal Server Error"}''\<close>
  by code_simp

text \<open>
  What the server does when the handler of a matched request throws. It logs the
  error; if the final flag of the Response is unset it then sends one reply 500 with
  the body \<open>{"error":"Internal Server Error"}\<close>, and if the flag is set it sends nothing
  more. The \<open>catch\<close> blocks that run after that only log: those of the \<open>k\<close> replies of the
  handler whose refusal had not arrived, and the one of the reply 500 if it is refused.
\<close>

lemma serve_handler_throws:
  assumes "(if bodyString \<noteq> [] then JSON_parse bodyString else Inr JNull) = Inr b"
    and "req = \<lparr>authorId = author msg, req_method = m, req_path = pathname u,
                params = fromEntries (zip (paramKeys rt) routeMatch),
                query = fromEntries (searchParams u), body = b\<rparr>"
    and "run_handler tr (handler rt) req (0, new_response, [Invoke (method rt) (path rt) req]) =
           (Raised err, k, res, log)"
    and "log1 = log @ [LogError (''[BotAPIServer] Error in handler for '' @ method_name m @ '' '' @ route @ '':'')]"
  shows \<open>snd (serve tr msg m route u bodyString rt routeMatch) =
            log1 @
            (if sentFinal res then []
             else Reply 500 ''{"error":"Internal Server Error"}'' #
                  (if accepts tr log1 (Reply 500 ''{"error":"Internal Server Error"}'') then []
                   else [LogError ''Failed to send API response:''])) @
            replicate k (LogError ''Failed to send API response:'')\<close>
proof (cases "sentFinal res")
  case True
  then show ?thesis
    using assms by (simp add: serve_def Let_def settle_after_final)
next
  case False
  let ?e = "Reply 500 (stringify (JObj [(''error'', JStr ''Internal Server Error'')]))"
  have j: "json tr (error_body ''Internal Server Error'') (status 500 res, log1) =
             (Completed, (status 500 res)\<lparr>sentFinal := True\<rparr>,
              log1 @ ?e # (if accepts tr log1 ?e then [] else [LogError ''Failed to send API response:'']))"
    using False
    by (simp add: error_body_def json_def json_catch_def JSON_stringify_def Let_def
        del: stringify.simps)
  have "snd (serve tr msg m route u bodyString rt routeMatch) =
          snd (settle tr k (snd (json tr (error_body ''Internal Server Error'') (status 500 res, log1))))"
    using assms False by (simp add: serve_def Let_def split: prod.splits)
  then show ?thesis
    using False
    by (simp add: j settle_after_final internal_error_text del: stringify.simps)
qed

text \<open>
  A reply that the handler does not await and that the transport refuses. When the
  handler throws next, the flag is still unset and the server sends its reply 500; when
  the handler sends a final reply next, that reply goes out. The \<open>catch\<close> block of the
  refused call runs after that and only logs.
\<close>

lemma dropped_reply_then_throw:
  \<open>serve refuse_first (ask ''POST /x'') POST ''/x'' \<lparr>pathname = ''/x'', searchParams = []\<rparr> []
          (plain_route POST ''/x'' dropped_reply_handler) [] =
     (Completed,
      [Invoke POST ''/x''
         \<lparr>authorId = ''7'', req_method = POST, req_path = ''/x'', params = [], query = [], body = JNull\<rparr>,
       Reply 100 ''null'',
       LogError ''[BotAPIServer] Error in handler for POST /x:'',
       Reply 500 ''{"error":"Internal Server Error"}'',
       LogError ''Failed to send API response:''])\<close>
  by (simp add: serve_def run_handler_def plain_route_def dropped_reply_handler_def json_begin_def
      json_def json_catch_def JSON_stringify_def error_body_def new_response_def status_def
      fromEntries_def ask_def accepts_def refuse_first_def internal_error_text Let_def
      del: stringify.simps)
    simp

lemma dropped_reply_then_final:
  \<open>serve refuse_first (ask ''POST /x'') POST ''/x'' \<lparr>pathname = ''/x'', searchParams = []\<rparr> []
          (plain_route POST ''/x'' dropped_then_final_handler) [] =
     (Completed,
      [Invoke POST ''/x''
         \<lparr>authorId = ''7'', req_method = POST, req_path = ''/x'', params = [], query = [], body = JNull\<rparr>,
       Reply 100 ''null'',
       Reply 200 ''true'',
       LogError ''Failed to send API response:''])\<close>
  by (simp add: serve_def run_handler_def plain_route_def dropped_then_final_handler_def json_begin_def
      json_catch_def JSON_stringify_def new_response_def status_def
      fromEntries_def ask_def accepts_def refuse_first_def Let_def)

text \<open>
  Claim C6 makes the reply 500 depend on whether a final reply has been sent. The
  server tests the flag \<open>sentFinal\<close>, and \<open>json\<close> sets that flag before it serializes:
  when a handler calls \<open>json\<close> at the default status 200 on a value that cannot be
  serialized, the \<open>catch\<close> block of \<open>json\<close> finds the flag set and sends no fallback
  reply; when the handler then throws, the server finds the flag set and sends no
  reply 500. The request is answered by no reply at all, although no final reply
  has been sent.
\<close>

theorem handler_failure_no_reply:
  "handleMessage demo_server accept_all (ask ''POST /bigint'') =
     (Completed,
      [Invoke POST ''/bigint''
         \<lparr>authorId = ''7'', req_method = POST, req_path = ''/bigint'', params = [], query = [], body = JNull\<rparr>,
       LogError ''Failed to send API response:'',
       LogError ''[BotAPIServer] Error in handler for POST /bigint:''])
   \<and> filter is_reply (snd (handleMessage demo_server accept_all (ask ''POST /bigint''))) = []"
proof -
  have a: "addressed demo_server (ask ''POST /bigint'') ''POST /bigint''"
    using addressed_ask [of "''POST /bigint''"] by (simp add: is_space_def)
  have p: "parse_command ''POST /bigint'' = Inr (''POST'', ''/bigint'', [])"
    by code_simp
  have u: "URL_parse ''/bigint'' = Inr \<lparr>pathname = ''/bigint'', searchParams = []\<rparr>"
    by code_simp
  have m1: "rmatch (pathRegex balance_route) ''/bigint'' = None" by code_simp
  have m2: "rmatch (pathRegex (plain_route POST ''/crash'' crashing_handler)) ''/bigint'' = None" by code_simp
  have m3: "rmatch (pathRegex (plain_route POST ''/late'' late_crashing_handler)) ''/bigint'' = None" by code_simp
  have m4: "rmatch (pathRegex (plain_route POST ''/bigint'' unserializable_handler)) ''/bigint'' = Some []" by code_simp
  have d: "dispatch accept_all (ask ''POST /bigint'') POST ''/bigint''
             \<lparr>pathname = ''/bigint'', searchParams = []\<rparr> [] (routes demo_server) =
           serve accept_all (ask ''POST /bigint'') POST ''/bigint''
             \<lparr>pathname = ''/bigint'', searchParams = []\<rparr> []
             (plain_route POST ''/bigint'' unserializable_handler) []"
    using m1 m2 m3 m4 by (simp add: demo_server_def balance_route_def plain_route_def)
  have "handleMessage demo_server accept_all (ask ''POST /bigint'') =
     (Completed,
      [Invoke POST ''/bigint''
         \<lparr>authorId = ''7'', req_method = POST, req_path = ''/bigint'', params = [], query = [], body = JNull\<rparr>,
       LogError ''Failed to send API response:'',
       LogError ''[BotAPIServer] Error in handler for POST /bigint:''])"
    by (simp add: handleMessage_addressed [OF a] p u d method_of_def)
      (simp add: serve_def run_handler_def plain_route_def unserializable_handler_def json_def
        json_catch_def JSON_stringify_def new_response_def fromEntries_def ask_def Let_def)
  then show ?thesis by simp
qed

section \<open>Properties of the client\<close>

lemma map_of_delete_same [simp]: "map_of (delete k m) k = None"
  by (induction m) (auto simp: delete_def)

lemma map_of_delete_other [simp]: "k' \<noteq> k \<Longrightarrow> map_of (delete k m) k' = map_of m k'"
  by (induction m) (auto simp: delete_def)

text \<open>The example client is the new client after one call of \<open>makeRequest\<close>.\<close>

lemma waiting_client_eq:
  "waiting_client =
     \<lparr>targetBotId = ''42'', defaultTimeout = 15000,
      pendingRequests = [(''m1'', \<lparr>onUpdate = None, timeoutId = 0\<rparr>)],
      timers = [(0, \<lparr>due = 15000, timer_msg = ''m1'', timer_ms = 15000\<rparr>)],
      clock = 0, next_handle = 1, trace = [Sent ''<@42>:api GET %2Fa'']\<rparr>"
  by (simp add: waiting_client_def makeRequest_def new_client_def no_options_def requestString_def
      encodeURIComponent_def uri_unreserved_def is_alpha_def is_digit_def pct_utf8_def pct_byte_def
      upper_hex_def emit_def timer_delay_def Let_def)

text \<open>
  Claim C8. A reply to a pending call whose body does not parse as JSON: with a status
  of 200 or more the timer of the call is cleared, the call is rejected with the
  malformed-response error and its entry is removed; with a status below 200 nothing
  changes at all.
\<close>

theorem malformed_reply:
  assumes "author msg = targetBotId c" and "reference msg = Some mid" and "mid \<noteq> []"
    and "map_of (pendingRequests c) mid = Some p"
    and "indexOf_space (content msg) = Some i"
    and "parseInt (take i (content msg)) = Some st"
    and "JSON_parse (drop (i + 1) (content msg)) = Inl SyntaxError"
  shows "(200 \<le> st \<longrightarrow>
            handleReply msg c =
              Inr (c\<lparr>timers := delete (timeoutId p) (timers c),
                     trace := trace c @ [Rejected (timeoutId p) ''Malformed response: Invalid JSON body.''],
                     pendingRequests := delete mid (pendingRequests c)\<rparr>)
            \<and> map_of (delete (timeoutId p) (timers c)) (timeoutId p) = None
            \<and> map_of (delete mid (pendingRequests c)) mid = None)
       \<and> (st < 200 \<longrightarrow> handleReply msg c = Inr c)"
  using assms by (simp add: handleReply_def emit_def clearTimeout_def)

text \<open>The replies \<open>200 nul\<close> and \<open>100 nul\<close> to the waiting call of the example client.\<close>

theorem malformed_reply_witness:
  "handleReply (reply_to ''m1'' ''200 nul'') waiting_client =
     Inr (waiting_client\<lparr>timers := [],
            trace := [Sent ''<@42>:api GET %2Fa'', Rejected 0 ''Malformed response: Invalid JSON body.''],
            pendingRequests := []\<rparr>)
   \<and> handleReply (reply_to ''m1'' ''100 nul'') waiting_client = Inr waiting_client"
proof -
  have a: "author (reply_to ''m1'' t) = targetBotId waiting_client" for t
    by (simp add: reply_to_def waiting_client_eq)
  have r: "reference (reply_to ''m1'' t) = Some ''m1''" for t
    by (simp add: reply_to_def)
  have n: "''m1'' \<noteq> []" by simp
  have p: "map_of (pendingRequests waiting_client) ''m1'' = Some \<lparr>onUpdate = None, timeoutId = 0\<rparr>"
    by (simp add: waiting_client_eq)
  have i: "indexOf_space (content (reply_to ''m1'' ''200 nul'')) = Some 3"
    "indexOf_space (content (reply_to ''m1'' ''100 nul'')) = Some 3"
    by (simp_all add: reply_to_def)
  have s: "parseInt (take 3 (content (reply_to ''m1'' ''200 nul''))) = Some 200"
    "parseInt (take 3 (content (reply_to ''m1'' ''100 nul''))) = Some 100"
    unfolding reply_to_def by simp_all code_simp+
  have j: "JSON_parse (drop (3 + 1) (content (reply_to ''m1'' ''200 nul''))) = Inl SyntaxError"
    "JSON_parse (drop (3 + 1) (content (reply_to ''m1'' ''100 nul''))) = Inl SyntaxError"
    unfolding reply_to_def by simp_all code_simp+
  from malformed_reply [OF a r n p i(1) s(1) j(1)] malformed_reply [OF a r n p i(2) s(2) j(2)]
  show ?thesis
    by (simp add: waiting_client_eq delete_def)
qed

text \<open>
  Claim C10. A well-formed reply to a pending call whose status is below 100 is taken
  as the final response: the timer of the call is cleared, the call resolves with the
  status and the body, and its entry is removed.
\<close>

theorem low_status_is_final:
  assumes "author msg = targetBotId c" and "reference msg = Some mid" and "mid \<noteq> []"
    and "map_of (pendingRequests c) mid = Some p"
    and "indexOf_space (content msg) = Some i"
    and "parseInt (take i (content msg)) = Some st"
    and "JSON_parse (drop (i + 1) (content msg)) = Inr b"
    and "st < 100"
  shows "handleReply msg c =
           Inr (c\<lparr>timers := delete (timeoutId p) (timers c),
                  trace := trace c @ [Resolved (timeoutId p) (ClientResponse st b)],
                  pendingRequests := delete mid (pendingRequests c)\<rparr>)
       \<and> map_of (delete (timeoutId p) (timers c)) (timeoutId p) = None
       \<and> map_of (delete mid (pendingRequests c)) mid = None"
  using assms by (simp add: handleReply_def emit_def clearTimeout_def)

text \<open>The replies \<open>50 [1]\<close> and \<open>-5 null\<close> to the waiting call of the example client.\<close>

theorem low_status_is_final_witness:
  "handleReply (reply_to ''m1'' ''50 [1]'') waiting_client =
     Inr (waiting_client\<lparr>timers := [],
            trace := [Sent ''<@42>:api GET %2Fa'', Resolved 0 (ClientResponse 50 (JArr [JNum 1]))],
            pendingRequests := []\<rparr>)
   \<and> handleReply (reply_to ''m1'' ''-5 null'') waiting_client =
     Inr (waiting_client\<lparr>timers := [],
            trace := [Sent ''<@42>:api GET %2Fa'', Resolved 0 (ClientResponse (- 5) JNull)],
            pendingRequests := []\<rparr>)"
proof -
  have a: "author (reply_to ''m1'' t) = targetBotId waiting_client" for t
    by (simp add: reply_to_def waiting_client_eq)
  have r: "reference (reply_to ''m1'' t) = Some ''m1''" for t
    by (simp add: reply_to_def)
  have n: "''m1'' \<noteq> []" by simp
  have p: "map_of (pendingRequests waiting_client) ''m1'' = Some \<lparr>onUpdate = None, timeoutId = 0\<rparr>"
    by (simp add: waiting_client_eq)
  have i: "indexOf_space (content (reply_to ''m1'' ''50 [1]'')) = Some 2"
    "indexOf_space (content (reply_to ''m1'' ''-5 null'')) = Some 2"
    by (simp_all add: reply_to_def)
  have s: "parseInt (take 2 (content (reply_to ''m1'' ''50 [1]''))) = Some 50"
    "parseInt (take 2 (content (reply_to ''m1'' ''-5 null''))) = Some (- 5)"
    unfolding reply_to_def by simp_all code_simp+
  have j: "JSON_parse (drop (2 + 1) (content (reply_to ''m1'' ''50 [1]''))) = Inr (JArr [JNum 1])"
    "JSON_parse (drop (2 + 1) (content (reply_to ''m1'' ''-5 null''))) = Inr JNull"
    unfolding reply_to_def by simp_all code_simp+
  have l: "(50::int) < 100" "(- 5::int) < 100" by simp_all
  from low_status_is_final [OF a r n p i(1) s(1) j(1) l(1)]
    low_status_is_final [OF a r n p i(2) s(2) j(2) l(2)]
  show ?thesis
    by (simp add: waiting_client_eq delete_def)
qed

text \<open>
  A call that waits with its timer disarmed stays so through every quiet happening.
\<close>

lemma map_of_put: "map_of (put k v m) k' = (if k' = k then Some v else map_of m k')"
  by (induction m) auto

lemma set_put: "set (put k v m) \<subseteq> insert (k, v) (set m)"
  by (induction m) (auto split: if_splits)

lemma set_delete: "set (delete k m) \<subseteq> set m"
  by (auto simp: delete_def)

lemma map_of_None_fst: "map_of m k = None \<Longrightarrow> kv \<in> set m \<Longrightarrow> fst kv \<noteq> k"
  by (metis map_of_eq_None_iff image_eqI)

lemma targetBotId_emit [simp]: "targetBotId (emit e c) = targetBotId c"
  by (simp add: emit_def)

lemma targetBotId_clearTimeout [simp]: "targetBotId (clearTimeout tid c) = targetBotId c"
  by (simp add: clearTimeout_def)

lemma disarmed_no_timer:
  assumes "disarmed c mid p" and "kt \<in> set (timers c)"
  shows "timer_msg (snd kt) \<noteq> mid" and "fst kt \<noteq> timeoutId p"
proof -
  show "fst kt \<noteq> timeoutId p"
    using assms map_of_None_fst [of "timers c" "timeoutId p" kt] by (simp add: disarmed_def)
  then show "timer_msg (snd kt) \<noteq> mid"
    using assms by (auto simp: disarmed_def live_call_def)
qed

lemma disarmed_clearTimeout:
  assumes "disarmed c mid p"
  shows "disarmed (clearTimeout tid c) mid p"
proof -
  have "map_of (delete tid (timers c)) (timeoutId p) = None"
    using assms set_delete [of tid "timers c"]
    by (metis disarmed_def map_of_eq_None_iff image_mono subsetD)
  then show ?thesis
    using assms set_delete [of tid "timers c"]
    by (auto simp: disarmed_def live_call_def clearTimeout_def)
qed

lemma disarmed_emit:
  assumes "disarmed c mid p" and "\<not> settles (timeoutId p) e"
  shows "disarmed (emit e c) mid p"
  using assms by (auto simp: disarmed_def live_call_def emit_def)

lemma disarmed_delete_other:
  assumes "disarmed c mid p" and "k \<noteq> mid"
  shows "disarmed (c\<lparr>pendingRequests := delete k (pendingRequests c)\<rparr>) mid p"
  using assms set_delete [of k "pendingRequests c"]
  by (auto simp: disarmed_def live_call_def)

lemma disarmed_other_handle:
  assumes "disarmed c mid p" and "map_of (pendingRequests c) k = Some q" and "k \<noteq> mid"
  shows "timeoutId q \<noteq> timeoutId p"
proof -
  have "(k, q) \<in> set (pendingRequests c)"
    using assms(2) by (rule map_of_SomeD)
  then show ?thesis
    using assms(1,3) by (auto simp: disarmed_def live_call_def)
qed

lemma disarmed_fire:
  assumes "disarmed c mid p"
  shows "disarmed (fire tid c) mid p"
proof (cases "map_of (timers c) tid")
  case None
  then show ?thesis using assms by (simp add: fire_def)
next
  case (Some t)
  then have mem: "(tid, t) \<in> set (timers c)" by (rule map_of_SomeD)
  have 1: "timer_msg t \<noteq> mid" and 2: "tid \<noteq> timeoutId p"
    using disarmed_no_timer [OF assms mem] by simp_all
  have 3: "map_of (delete tid (timers c)) (timeoutId p) = None"
    using assms 2 by (simp add: disarmed_def)
  show ?thesis
    using Some assms 1 2 3 set_delete [of tid "timers c"]
      set_delete [of "timer_msg t" "pendingRequests c"]
    by (auto simp: fire_def emit_def disarmed_def live_call_def)
qed

lemma disarmed_fires:
  "disarmed c mid p \<Longrightarrow> disarmed (foldl (\<lambda>c' kt. fire (fst kt) c') c kts) mid p"
  by (induction kts arbitrary: c) (simp_all add: disarmed_fire)

lemma disarmed_elapse:
  assumes "disarmed c mid p"
  shows "disarmed (elapse d c) mid p"
proof -
  have "disarmed (c\<lparr>clock := clock c + d\<rparr>) mid p"
    using assms by (simp add: disarmed_def live_call_def)
  then show ?thesis
    unfolding elapse_def Let_def by (rule disarmed_fires)
qed

lemma disarmed_makeRequest:
  assumes "disarmed c mid p" and "sent \<noteq> Some mid"
  shows "disarmed (makeRequest m route options sent c) mid p"
proof -
  let ?n = "next_handle c"
  have lt: "timeoutId p < ?n" using assms(1) by (simp add: disarmed_def live_call_def)
  have c0: "disarmed (c\<lparr>next_handle := Suc ?n\<rparr>) mid p"
    using assms(1) by (auto simp: disarmed_def live_call_def)
  show ?thesis
  proof (cases "requestString (targetBotId c) m route (opt_body options)")
    case (Inl e)
    then show ?thesis
      using disarmed_emit [OF c0, of "Rejected ?n ''JSON.stringify failed''"] lt
      by (simp add: makeRequest_def Let_def)
  next
    case (Inr s)
    have c1: "disarmed (emit (Sent s) (c\<lparr>next_handle := Suc ?n\<rparr>)) mid p"
      by (rule disarmed_emit [OF c0]) simp
    show ?thesis
    proof (cases sent)
      case None
      then show ?thesis
        using Inr disarmed_emit [OF c1, of "Rejected ?n ''send failed''"] lt
        by (simp add: makeRequest_def Let_def)
    next
      case (Some rid)
      then have ne: "rid \<noteq> mid" using assms(2) by simp
      let ?q = "\<lparr>onUpdate = opt_onUpdate options, timeoutId = ?n\<rparr>"
      have "\<forall>kq \<in> set (put rid ?q (pendingRequests c)). fst kq \<noteq> mid \<longrightarrow> timeoutId (snd kq) \<noteq> timeoutId p"
        using set_put [of rid ?q "pendingRequests c"] assms(1) lt
        by (auto simp: disarmed_def live_call_def)
      then show ?thesis
        using Inr Some c1 ne lt
        by (auto simp: makeRequest_def Let_def disarmed_def live_call_def emit_def map_of_put)
    qed
  qed
qed

lemma disarmed_handleReply:
  assumes d: "disarmed c mid p"
    and q: "author msg \<noteq> targetBotId c \<or> reference msg \<noteq> Some mid \<or> keeps_alive (content msg)"
    and r: "handleReply msg c = Inr c'"
  shows "disarmed c' mid p \<and> targetBotId c' = targetBotId c"
proof (cases "author msg \<noteq> targetBotId c \<or> reference msg = None \<or> reference msg = Some []
              \<or> map_of (pendingRequests c) (the (reference msg)) = None")
  case True
  then have "handleReply msg c = Inr c"
    by (auto simp: handleReply_def split: option.splits)
  then show ?thesis using d r by simp
next
  case False
  then obtain k e where k: "reference msg = Some k" "k \<noteq> []" "map_of (pendingRequests c) k = Some e"
    and a: "author msg = targetBotId c"
    by auto
  show ?thesis
  proof (cases "indexOf_space (content msg)")
    case None
    then have "handleReply msg c = Inr c" using k a by (simp add: handleReply_def)
    then show ?thesis using d r by simp
  next
    case (Some i)
    show ?thesis
    proof (cases "parseInt (take i (content msg))")
      case None
      then have "handleReply msg c = Inr c" using k a Some by (simp add: handleReply_def)
      then show ?thesis using d r by simp
    next
      case (Some st)
      note st = this
      have up: "disarmed (emit (Updated (timeoutId e) x) (clearTimeout (timeoutId e) c)) mid p" for x
        by (intro disarmed_emit disarmed_clearTimeout d) simp
      show ?thesis
      proof (cases "k = mid")
        case True
        then have ka: "st < 200" "100 \<le> st \<or> JSON_parse (drop (i + 1) (content msg)) = Inl SyntaxError"
          using q a k \<open>indexOf_space (content msg) = Some i\<close> st by (auto simp: keeps_alive_def)
        show ?thesis
        proof (cases "JSON_parse (drop (i + 1) (content msg))")
          case (Inl err)
          then have "c' = c"
            using r k a \<open>indexOf_space (content msg) = Some i\<close> st ka
            by (auto simp: handleReply_def split: if_splits)
          then show ?thesis using d by simp
        next
          case (Inr b)
          then have "100 \<le> st" using ka by auto
          then have "c' = clearTimeout (timeoutId e) c \<or>
                     c' = emit (Updated (timeoutId e) (ClientResponse st b)) (clearTimeout (timeoutId e) c)"
            using r k a \<open>indexOf_space (content msg) = Some i\<close> st ka Inr
            by (auto simp: handleReply_def Let_def split: option.splits outcome.splits)
          then show ?thesis
            using up disarmed_clearTimeout [OF d] by auto
        qed
      next
        case False
        have h: "timeoutId e \<noteq> timeoutId p"
          by (rule disarmed_other_handle [OF d k(3) False])
        have del: "disarmed ((emit x (clearTimeout (timeoutId e) c))
                     \<lparr>pendingRequests := delete k (pendingRequests c)\<rparr>) mid p"
          if "\<not> settles (timeoutId p) x" for x
        proof -
          have "disarmed (emit x (clearTimeout (timeoutId e) c)) mid p"
            by (intro disarmed_emit disarmed_clearTimeout d that)
          from disarmed_delete_other [OF this False] show ?thesis
            by (simp add: emit_def clearTimeout_def)
        qed
        show ?thesis
        proof (cases "JSON_parse (drop (i + 1) (content msg))")
          case (Inl err)
          then have "c' = c \<or>
              c' = (emit (Rejected (timeoutId e) ''Malformed response: Invalid JSON body.'')
                      (clearTimeout (timeoutId e) c))
                     \<lparr>pendingRequests := delete k (pendingRequests c)\<rparr>"
            using r k a \<open>indexOf_space (content msg) = Some i\<close> st
            by (auto simp: handleReply_def Let_def split: if_splits)
          then show ?thesis
            using d h del [of "Rejected (timeoutId e) ''Malformed response: Invalid JSON body.''"]
            by auto
        next
          case (Inr b)
          then have "c' = clearTimeout (timeoutId e) c
              \<or> c' = emit (Updated (timeoutId e) (ClientResponse st b)) (clearTimeout (timeoutId e) c)
              \<or> c' = (emit (Resolved (timeoutId e) (ClientResponse st b)) (clearTimeout (timeoutId e) c))
                     \<lparr>pendingRequests := delete k (pendingRequests c)\<rparr>"
            using r k a \<open>indexOf_space (content msg) = Some i\<close> st
            by (auto simp: handleReply_def Let_def split: option.splits outcome.splits if_splits)
          then show ?thesis
            using up h del [of "Resolved (timeoutId e) (ClientResponse st b)"]
              disarmed_clearTimeout [OF d]
            by auto
        qed
      qed
    qed
  qed
qed

lemma targetBotId_fires:
  "targetBotId (foldl (\<lambda>c' kt. fire (fst kt) c') c kts) = targetBotId c"
  by (induction kts arbitrary: c) (auto simp: fire_def emit_def split: option.splits)

lemma disarmed_step:
  assumes "disarmed c mid p" and "quiet (targetBotId c) mid x" and "step x c = Inr c'"
  shows "disarmed c' mid p \<and> targetBotId c' = targetBotId c"
proof (cases x)
  case (Receive msg)
  then show ?thesis using assms disarmed_handleReply [of c mid p msg c'] by simp
next
  case (Elapse d)
  have "targetBotId (elapse d c) = targetBotId c"
    by (simp add: elapse_def Let_def targetBotId_fires)
  then show ?thesis using Elapse assms disarmed_elapse [of c mid p d] by auto
next
  case (Request m route options sent)
  have "targetBotId (makeRequest m route options sent c) = targetBotId c"
    by (auto simp: makeRequest_def Let_def emit_def split: sum.splits option.splits)
  then show ?thesis using Request assms disarmed_makeRequest [of c mid p sent m route options] by auto
qed

lemma disarmed_run:
  "disarmed c mid p \<Longrightarrow> \<forall>x \<in> set ins. quiet (targetBotId c) mid x \<Longrightarrow> run_inputs ins c = Inr c' \<Longrightarrow>
   disarmed c' mid p \<and> targetBotId c' = targetBotId c"
proof (induction ins arbitrary: c)
  case Nil
  then show ?case by simp
next
  case (Cons x ins)
  from Cons.prems(3) obtain c1 where s: "step x c = Inr c1" and r: "run_inputs ins c1 = Inr c'"
    by (auto split: sum.splits)
  have 1: "disarmed c1 mid p \<and> targetBotId c1 = targetBotId c"
    using disarmed_step [OF Cons.prems(1) _ s] Cons.prems(2) by simp
  then have "\<forall>x \<in> set ins. quiet (targetBotId c1) mid x"
    using Cons.prems(2) by simp
  from Cons.IH [OF _ this r] 1 show ?case by simp
qed

lemma live_call_disarm:
  assumes "live_call c mid p"
  shows "disarmed (clearTimeout (timeoutId p) c) mid p"
  using assms set_delete [of "timeoutId p" "timers c"]
  by (auto simp: disarmed_def live_call_def clearTimeout_def)

text \<open>
  Claim C7. An intermediate reply (a status from 100 to 199 and a body that parses) to
  a waiting call clears the timer of the call, calls \<open>onUpdate\<close> if there is one, and
  leaves the entry in place. From then on, whatever time passes and whatever else
  happens that is not a final reply to this call, the entry stays, its timer stays
  disarmed and its promise is neither resolved nor rejected; a final reply that
  arrives after that resolves the call with its status and body.
\<close>

theorem keep_alive_disarms:
  assumes "live_call c mid p" and "mid \<noteq> []"
    and "author msg = targetBotId c" and "reference msg = Some mid"
    and "indexOf_space (content msg) = Some i"
    and "parseInt (take i (content msg)) = Some st" and "100 \<le> st" and "st < 200"
    and "JSON_parse (drop (i + 1) (content msg)) = Inr b"
    and "c1 = (case onUpdate p of
                 None \<Rightarrow> clearTimeout (timeoutId p) c
               | Some f \<Rightarrow> emit (Updated (timeoutId p) (ClientResponse st b)) (clearTimeout (timeoutId p) c))"
    and "\<forall>x \<in> set ins. quiet (targetBotId c) mid x"
    and "run_inputs ins c1 = Inr c2"
    and "author msg' = targetBotId c" and "reference msg' = Some mid"
    and "indexOf_space (content msg') = Some i'"
    and "parseInt (take i' (content msg')) = Some st'" and "200 \<le> st'"
    and "JSON_parse (drop (i' + 1) (content msg')) = Inr b'"
  shows "handleReply msg c = Inr c1
       \<and> map_of (timers c1) (timeoutId p) = None
       \<and> pendingRequests c1 = pendingRequests c
       \<and> trace c1 = trace c @ (case onUpdate p of None \<Rightarrow> []
                                | Some f \<Rightarrow> [Updated (timeoutId p) (ClientResponse st b)])
       \<and> map_of (pendingRequests c2) mid = Some p
       \<and> map_of (timers c2) (timeoutId p) = None
       \<and> (\<forall>e \<in> set (trace c2). \<not> settles (timeoutId p) e)
       \<and> handleReply msg' c2 =
           Inr (c2\<lparr>timers := delete (timeoutId p) (timers c2),
                   trace := trace c2 @ [Resolved (timeoutId p) (ClientResponse st' b')],
                   pendingRequests := delete mid (pendingRequests c2)\<rparr>)"
proof -
  have e: "map_of (pendingRequests c) mid = Some p"
    using assms(1) by (simp add: live_call_def)
  have 1: "handleReply msg c = Inr c1"
    using assms(2-10) e
    by (auto simp: handleReply_def Let_def split: option.splits outcome.splits)
  have 2: "map_of (timers c1) (timeoutId p) = None \<and> pendingRequests c1 = pendingRequests c
       \<and> trace c1 = trace c @ (case onUpdate p of None \<Rightarrow> []
                                | Some f \<Rightarrow> [Updated (timeoutId p) (ClientResponse st b)])"
    using assms(10) by (auto simp: clearTimeout_def emit_def split: option.splits)
  have d0: "disarmed (clearTimeout (timeoutId p) c) mid p"
    by (rule live_call_disarm [OF assms(1)])
  have d1: "disarmed c1 mid p"
    using assms(10) d0 disarmed_emit [OF d0, of "Updated (timeoutId p) (ClientResponse st b)"]
    by (auto split: option.splits)
  have t1: "targetBotId c1 = targetBotId c"
    using assms(10) by (auto split: option.splits)
  have "disarmed c2 mid p \<and> targetBotId c2 = targetBotId c1"
    using disarmed_run [OF d1 _ assms(12)] assms(11) t1 by simp
  then have d2: "disarmed c2 mid p" and t2: "targetBotId c2 = targetBotId c"
    using t1 by simp_all
  have 3: "map_of (pendingRequests c2) mid = Some p \<and> map_of (timers c2) (timeoutId p) = None
       \<and> (\<forall>e \<in> set (trace c2). \<not> settles (timeoutId p) e)"
    using d2 by (simp add: disarmed_def live_call_def)
  have 4: "handleReply msg' c2 =
           Inr (c2\<lparr>timers := delete (timeoutId p) (timers c2),
                   trace := trace c2 @ [Resolved (timeoutId p) (ClientResponse st' b')],
                   pendingRequests := delete mid (pendingRequests c2)\<rparr>)"
    using assms(2,13-18) 3 t2
    by (simp add: handleReply_def emit_def clearTimeout_def)
  show ?thesis using 1 2 3 4 by simp
qed

text \<open>
  The example of the specification: a reply 100, then 30 seconds (the timeout is 15
  seconds), then a reply 200.
\<close>

theorem keep_alive_disarms_witness:
  "run_inputs [Receive (reply_to ''m1'' ''100 null''), Elapse 30000,
               Receive (reply_to ''m1'' ''200 [1]'')] waiting_client =
     Inr (waiting_client\<lparr>timers := [], clock := 30000,
            trace := [Sent ''<@42>:api GET %2Fa'', Resolved 0 (ClientResponse 200 (JArr [JNum 1]))],
            pendingRequests := []\<rparr>)"
proof -
  let ?p = "\<lparr>onUpdate = None, timeoutId = 0\<rparr>"
  let ?c1 = "clearTimeout 0 waiting_client"
  let ?c2 = "waiting_client\<lparr>timers := [], clock := 30000\<rparr>"
  have l: "live_call waiting_client ''m1'' ?p"
    by (simp add: live_call_def waiting_client_eq)
  have n: "''m1'' \<noteq> []" by simp
  have a: "author (reply_to ''m1'' t) = targetBotId waiting_client" for t
    by (simp add: reply_to_def waiting_client_eq)
  have r: "reference (reply_to ''m1'' t) = Some ''m1''" for t
    by (simp add: reply_to_def)
  have i: "indexOf_space (content (reply_to ''m1'' ''100 null'')) = Some 3"
    "indexOf_space (content (reply_to ''m1'' ''200 [1]'')) = Some 3"
    by (simp_all add: reply_to_def)
  have s: "parseInt (take 3 (content (reply_to ''m1'' ''100 null''))) = Some 100"
    "parseInt (take 3 (content (reply_to ''m1'' ''200 [1]''))) = Some 200"
    unfolding reply_to_def by simp_all code_simp+
  have j: "JSON_parse (drop (3 + 1) (content (reply_to ''m1'' ''100 null''))) = Inr JNull"
    "JSON_parse (drop (3 + 1) (content (reply_to ''m1'' ''200 [1]''))) = Inr (JArr [JNum 1])"
    unfolding reply_to_def by simp_all code_simp+
  have c1: "?c1 = (case onUpdate ?p of
                 None \<Rightarrow> clearTimeout (timeoutId ?p) waiting_client
               | Some f \<Rightarrow> emit (Updated (timeoutId ?p) (ClientResponse 100 JNull))
                            (clearTimeout (timeoutId ?p) waiting_client))"
    by simp
  have q: "\<forall>x \<in> set [Elapse 30000]. quiet (targetBotId waiting_client) ''m1'' x"
    by simp
  have e: "run_inputs [Elapse 30000] ?c1 = Inr ?c2"
    by (simp add: elapse_def clearTimeout_def waiting_client_eq delete_def)
  have b: "(100::int) \<le> 100" "(100::int) < 200" "(200::int) \<le> 200" by simp_all
  from keep_alive_disarms [OF l n a r i(1) s(1) b(1) b(2) j(1) c1 q e a r i(2) s(2) b(3) j(2)]
  have "handleReply (reply_to ''m1'' ''100 null'') waiting_client = Inr ?c1"
    and "handleReply (reply_to ''m1'' ''200 [1]'') ?c2 =
           Inr (?c2\<lparr>timers := delete 0 (timers ?c2),
                   trace := trace ?c2 @ [Resolved 0 (ClientResponse 200 (JArr [JNum 1]))],
                   pendingRequests := delete ''m1'' (pendingRequests ?c2)\<rparr>)"
    by simp_all
  then show ?thesis
    using e by (simp add: waiting_client_eq delete_def)
qed

section \<open>Properties of the route table\<close>

declare backoff.simps [simp del]

lemma plain_not_word_start: "plain_char c \<Longrightarrow> c \<noteq> CHR '':''"
  by (simp add: plain_char_def)

lemma replace_params_plain:
  "list_all plain_char t \<Longrightarrow>
   replace_params (t @ rest) = (t @ fst (replace_params rest), snd (replace_params rest))"
  by (induction t) (auto simp: plain_char_def split: prod.splits)

lemma template_text_start: "template_text segs = [] \<or> hd (template_text segs) = CHR ''/''"
  by (cases segs rule: template_text.cases) auto

lemma takeWhile_word_name:
  assumes "list_all is_word n" and "rest = [] \<or> hd rest = CHR ''/''"
  shows "takeWhile is_word (n @ rest) = n" and "dropWhile is_word (n @ rest) = rest"
proof -
  have "rest = [] \<or> \<not> is_word (hd rest)"
    using assms(2) by (auto simp: is_word_def is_alpha_def is_digit_def)
  then have 1: "takeWhile is_word rest = []" and 2: "dropWhile is_word rest = rest"
    by (cases rest; auto)+
  have a: "\<forall>x \<in> set n. is_word x" using assms(1) by (simp add: list_all_iff)
  show "takeWhile is_word (n @ rest) = n"
    using a 1 by (simp add: takeWhile_append2)
  show "dropWhile is_word (n @ rest) = rest"
    using a 2 by (simp add: dropWhile_append2)
qed

lemma replace_params_template:
  "\<forall>s \<in> set segs. plain_segment s \<Longrightarrow>
   replace_params (template_text segs) = (pattern_text segs, param_names segs)"
proof (induction segs)
  case Nil
  then show ?case by simp
next
  case (Cons s segs)
  then have ih: "replace_params (template_text segs) = (pattern_text segs, param_names segs)"
    by simp
  show ?case
  proof (cases s)
    case (Literal t)
    then have "list_all plain_char t" using Cons.prems by simp
    from replace_params_plain [OF this, of "template_text segs"] ih
    show ?thesis using Literal by simp
  next
    case (Param n)
    then have n: "n \<noteq> []" "list_all is_word n" using Cons.prems by simp_all
    note tw = takeWhile_word_name [OF n(2) template_text_start [of segs]]
    show ?thesis
      using Param n ih tw by simp
  qed
qed

text \<open>The compilation of the pattern of a plain template.\<close>

lemma parse_items_end: "parse_items ''/?$'' = Inr [Chr (Lit (CHR ''/'')) Opt]"
  by code_simp

lemma parse_items_group:
  "parse_items (''([^/]+)'' @ rest) = cons_ok Group (parse_items rest)"
  by (subst parse_items.simps) simp

lemma parse_items_char:
  assumes "\<not> syntax_char c \<or> c = CHR ''.''" and "rest \<noteq> []" and "hd rest \<notin> set ''?*+''"
  shows "parse_items (c # rest) =
           cons_ok (Chr (if c = CHR ''.'' then Dot else Lit c) One) (parse_items rest)"
proof -
  obtain q cs where r: "rest = q # cs" using assms(2) by (cases rest) auto
  have 1: "c # q # cs \<noteq> ''$''" by simp
  have "c \<noteq> CHR ''(''" using assms(1) by (auto simp: syntax_char_def)
  then have 2: "take 7 (c # q # cs) \<noteq> ''([^/]+)''" by auto
  have 3: "\<not> (syntax_char c \<and> c \<noteq> CHR ''.'')" using assms(1) by auto
  have 4: "q \<notin> set ''?*+''" using assms(3) r by simp
  show ?thesis
    unfolding r by (subst parse_items.simps) (simp only: 1 2 3 4 if_False list.case)
qed

lemma slash_plain: "\<not> syntax_char (CHR ''/'')"
  by (simp add: syntax_char_def)

lemma parse_items_literal:
  assumes "list_all plain_char t" and "rest \<noteq> []" and "hd rest = CHR ''/''"
  shows "parse_items (t @ rest) = (case parse_items rest of Inl e \<Rightarrow> Inl e
                                    | Inr its \<Rightarrow> Inr (map literal_item t @ its))"
  using assms
proof (induction t)
  case Nil
  then show ?case by (simp split: sum.splits)
next
  case (Cons c t)
  have t: "list_all plain_char t" and "plain_char c"
    using Cons.prems(1) by simp_all
  then have p: "\<not> syntax_char c \<or> c = CHR ''.''"
    by (auto simp: plain_char_def)
  have ne: "t @ rest \<noteq> []" using Cons.prems(2) by simp
  have "plain_char (hd (t @ rest)) \<or> hd (t @ rest) = CHR ''/''"
    using t Cons.prems(2,3) by (cases t) auto
  then have q: "hd (t @ rest) \<notin> set ''?*+''"
    by (auto simp: plain_char_def syntax_char_def)
  show ?case
    using parse_items_char [OF p ne q] Cons.IH [OF t Cons.prems(2,3)]
    by (simp add: literal_item_def cons_ok_def split: sum.splits)
qed

lemma parse_items_template:
  assumes "\<forall>s \<in> set segs. plain_segment s"
  shows "parse_items (pattern_text segs @ ''/?$'') = Inr (template_regex segs)"
  using assms
proof (induction segs)
  case Nil
  then show ?case by (simp add: template_regex_def parse_items_end)
next
  case (Cons s segs)
  then have ih: "parse_items (pattern_text segs @ ''/?$'') = Inr (template_regex segs)"
    by simp
  have st: "pattern_text segs @ ''/?$'' \<noteq> []" "hd (pattern_text segs @ ''/?$'') = CHR ''/''"
    by (cases segs rule: pattern_text.cases; simp)+
  show ?case
  proof (cases s)
    case (Literal t)
    then have t: "list_all plain_char t" using Cons.prems by simp
    have ne: "t @ pattern_text segs @ ''/?$'' \<noteq> []" by simp
    have "plain_char (hd (t @ pattern_text segs @ ''/?$'')) \<or> hd (t @ pattern_text segs @ ''/?$'') = CHR ''/''"
      using t st by (cases t) auto
    then have q: "hd (t @ pattern_text segs @ ''/?$'') \<notin> set ''?*+''"
      by (auto simp: plain_char_def syntax_char_def)
    have "parse_items (CHR ''/'' # t @ pattern_text segs @ ''/?$'') =
            cons_ok (Chr (Lit (CHR ''/'')) One) (parse_items (t @ pattern_text segs @ ''/?$''))"
      using parse_items_char [OF _ ne q, of "CHR ''/''"] slash_plain by simp
    then show ?thesis
      using Literal parse_items_literal [OF t st] ih
      by (simp add: template_regex_def cons_ok_def)
  next
    case (Param n)
    have "parse_items (CHR ''/'' # ''([^/]+)'' @ pattern_text segs @ ''/?$'') =
            cons_ok (Chr (Lit (CHR ''/'')) One) (parse_items (''([^/]+)'' @ pattern_text segs @ ''/?$''))"
      using parse_items_char [of "CHR ''/''" "''([^/]+)'' @ pattern_text segs @ ''/?$''"] slash_plain
      by simp
    then show ?thesis
      using Param ih parse_items_group [of "pattern_text segs @ ''/?$''"]
      by (simp add: template_regex_def cons_ok_def)
  qed
qed

lemma register_template:
  assumes "\<forall>s \<in> set segs. plain_segment s"
  shows "register m (template_text segs) h d srv =
           Inr (srv\<lparr>routes := routes srv @
                  [\<lparr>method = m, path = template_text segs, pathRegex = template_regex segs,
                    paramKeys = param_names segs, handler = h, docs = d\<rparr>]\<rparr>)"
  using parse_items_template [OF assms] replace_params_template [OF assms]
  by (simp add: register_def RegExp_def)

text \<open>The match of a path that satisfies a plain template.\<close>

lemma rmatch_literals:
  "list_all plain_char t \<Longrightarrow> rmatch (map literal_item t @ its) (t @ s) = rmatch its s"
  by (induction t) (auto simp: literal_item_def)

lemma group_run_value:
  assumes "CHR ''/'' \<notin> set v" and "r = [] \<or> hd r = CHR ''/''"
  shows "group_run (v @ r) = length v"
proof -
  have "takeWhile (\<lambda>c. c \<noteq> CHR ''/'') r = []"
    using assms(2) by (cases r) auto
  moreover have "\<forall>x \<in> set v. x \<noteq> CHR ''/''"
    using assms(1) by auto
  ultimately show ?thesis
    by (simp add: group_run_def takeWhile_append2)
qed

lemma rmatch_group:
  assumes "v \<noteq> []" and "CHR ''/'' \<notin> set v" and "r = [] \<or> hd r = CHR ''/''"
    and "rmatch its r = Some gs"
  shows "rmatch (Group # its) (v @ r) = Some (v # gs)"
proof -
  have "backoff its (v @ r) (length v) 1 = Some (length v, gs)"
    using assms(1,4) by (subst backoff.simps) (simp add: Suc_le_eq)
  then show ?thesis
    by (simp add: group_run_value [OF assms(2,3)])
qed

lemma rmatch_end:
  "slash = [] \<or> slash = ''/'' \<Longrightarrow> rmatch [Chr (Lit (CHR ''/'')) Opt] slash = Some []"
  by (auto simp: run_def backoff.simps)

lemma instantiate_start:
  "slash = [] \<or> slash = ''/'' \<Longrightarrow>
   instantiate segs vs @ slash = [] \<or> hd (instantiate segs vs @ slash) = CHR ''/''"
  by (cases "(segs, vs)" rule: instantiate.cases) auto

lemma rmatch_template:
  assumes "\<forall>s \<in> set segs. plain_segment s"
    and "length vs = length (param_names segs)"
    and "\<forall>v \<in> set vs. v \<noteq> [] \<and> CHR ''/'' \<notin> set v"
    and "slash = [] \<or> slash = ''/''"
  shows "rmatch (template_regex segs) (instantiate segs vs @ slash) = Some vs"
  using assms(1-3)
proof (induction segs arbitrary: vs)
  case Nil
  then show ?case using rmatch_end [OF assms(4)] by (simp add: template_regex_def)
next
  case (Cons s segs)
  show ?case
  proof (cases s)
    case (Literal t)
    then have t: "list_all plain_char t" using Cons.prems(1) by simp
    have "rmatch (template_regex segs) (instantiate segs vs @ slash) = Some vs"
      using Cons.IH [of vs] Cons.prems Literal by simp
    then show ?thesis
      using Literal by (simp add: template_regex_def rmatch_literals [OF t])
  next
    case (Param n)
    then obtain v vs' where vs: "vs = v # vs'"
      using Cons.prems(2) by (cases vs) auto
    have v: "v \<noteq> []" "CHR ''/'' \<notin> set v"
      using Cons.prems(3) vs by simp_all
    have ih: "rmatch (template_regex segs) (instantiate segs vs' @ slash) = Some vs'"
      using Cons.IH [of vs'] Cons.prems Param vs by simp
    from rmatch_group [OF v instantiate_start [OF assms(4)] ih]
    show ?thesis
      using Param vs by (simp add: template_regex_def)
  qed
qed

text \<open>The scan stops at the first route that accepts.\<close>

lemma dispatch_first:
  assumes "\<forall>r \<in> set before. method r \<noteq> m \<or> rmatch (pathRegex r) (pathname u) = None"
    and "method r1 = m" and "rmatch (pathRegex r1) (pathname u) = Some caps"
  shows "dispatch tr msg m route u bodyString (before @ r1 # after) =
           serve tr msg m route u bodyString r1 caps"
  using assms by (induction before) auto

text \<open>The events of a handler come after the mark of its call.\<close>

lemma json_catch_log: "\<exists>more. snd (snd (json_catch tr (r, log))) = log @ more"
  by (auto simp: json_catch_def Let_def)

lemma json_log: "\<exists>more. snd (snd (json tr d (r, log))) = log @ more"
  by (cases "JSON_stringify d") (auto simp: json_def json_catch_def Let_def)

lemma json_begin_log: "\<exists>more. snd (snd (json_begin tr d (r, log))) = log @ more"
  by (cases "JSON_stringify d") (auto simp: json_begin_def json_catch_def Let_def)

lemma settle_log: "\<exists>more. snd (settle tr k (r, log)) = log @ more"
proof (induction k arbitrary: r log)
  case 0
  then show ?case by simp
next
  case (Suc k)
  obtain r' log' where c: "snd (json_catch tr (r, log)) = (r', log')"
    by (cases "snd (json_catch tr (r, log))")
  obtain m1 where m1: "log' = log @ m1" using json_catch_log [of tr r log] c by auto
  obtain m2 where m2: "snd (settle tr k (r', log')) = log' @ m2" using Suc.IH by blast
  show ?case using c m1 m2 by simp
qed

lemma run_ops_log: "\<exists>more. snd (snd (snd (run_ops tr ops st))) = snd (snd st) @ more"
proof (induction ops arbitrary: st)
  case Nil
  then show ?case by simp
next
  case (Cons op ops)
  obtain k r log where st: "st = (k, r, log)" by (cases st)
  show ?case
  proof (cases op)
    case (Status c)
    then show ?thesis using Cons.IH [of "(k, status c r, log)"] st by simp
  next
    case (SendJson d aw)
    show ?thesis
    proof (cases aw)
      case True
      obtain oc r' log' where j: "json tr d (r, log) = (oc, r', log')" by (cases "json tr d (r, log)")
      obtain m1 where m1: "log' = log @ m1" using json_log [of tr d r log] j by auto
      obtain m2 where m2: "snd (snd (snd (run_ops tr ops (k, r', log')))) = log' @ m2"
        using Cons.IH [of "(k, r', log')"] by auto
      show ?thesis
        using SendJson True st j m1 m2 by (cases oc) auto
    next
      case False
      obtain p r' log' where j: "json_begin tr d (r, log) = (p, r', log')"
        by (cases "json_begin tr d (r, log)")
      obtain m1 where m1: "log' = log @ m1" using json_begin_log [of tr d r log] j by auto
      obtain m2 where m2: "snd (snd (snd (run_ops tr ops (k, r', log')))) = log' @ m2"
        using Cons.IH [of "(k, r', log')"] by auto
      obtain m3 where m3: "snd (snd (snd (run_ops tr ops (Suc k, r', log')))) = log' @ m3"
        using Cons.IH [of "(Suc k, r', log')"] by auto
      show ?thesis
        using SendJson False st j m1 m2 m3 by (cases p) auto
    qed
  next
    case Settle
    show ?thesis
    proof (cases k)
      case 0
      then show ?thesis using Settle st Cons.IH [of "(0, r, log)"] by simp
    next
      case (Suc j)
      obtain r' log' where c: "snd (json_catch tr (r, log)) = (r', log')"
        by (cases "snd (json_catch tr (r, log))")
      obtain m1 where m1: "log' = log @ m1" using json_catch_log [of tr r log] c by auto
      obtain m2 where m2: "snd (snd (snd (run_ops tr ops (j, r', log')))) = log' @ m2"
        using Cons.IH [of "(j, r', log')"] by auto
      show ?thesis using Settle st Suc c m1 m2 by simp
    qed
  qed
qed

text \<open>
  The first event of a served request whose body parses is the mark of the call of the
  handler, with the request the handler receives.
\<close>

lemma serve_invokes:
  assumes "(if bodyString \<noteq> [] then JSON_parse bodyString else Inr JNull) = Inr b"
  shows "hd (snd (serve tr msg m route u bodyString rt caps)) =
           Invoke (method rt) (path rt)
             \<lparr>authorId = author msg, req_method = m, req_path = pathname u,
              params = fromEntries (zip (paramKeys rt) caps),
              query = fromEntries (searchParams u), body = b\<rparr>"
proof -
  let ?req = "\<lparr>authorId = author msg, req_method = m, req_path = pathname u,
              params = fromEntries (zip (paramKeys rt) caps),
              query = fromEntries (searchParams u), body = b\<rparr>"
  let ?log0 = "[Invoke (method rt) (path rt) ?req]"
  let ?log1 = "\<lambda>log. log @ [LogError (''[BotAPIServer] Error in handler for '' @
                                       method_name m @ '' '' @ route @ '':'')]"
  obtain ops ending where h: "handler rt ?req = (ops, ending)" by (cases "handler rt ?req")
  obtain oc k res log where r: "run_ops tr ops (0, new_response, ?log0) = (oc, k, res, log)"
    by (cases "run_ops tr ops (0, new_response, ?log0)") auto
  obtain more where m: "log = ?log0 @ more"
    using run_ops_log [of tr ops "(0, new_response, ?log0)"] r by auto
  have rh: "\<exists>oc'. run_handler tr (handler rt) ?req (0, new_response, ?log0) = (oc', k, res, log)"
    by (cases oc; cases ending) (simp_all add: run_handler_def h r)
  then obtain oc' where rh': "run_handler tr (handler rt) ?req (0, new_response, ?log0) = (oc', k, res, log)"
    by auto
  obtain r2 log2 where j: "snd (json tr (error_body ''Internal Server Error'') (status 500 res, ?log1 log)) = (r2, log2)"
    by (cases "snd (json tr (error_body ''Internal Server Error'') (status 500 res, ?log1 log))")
  obtain more' where j': "log2 = ?log1 log @ more'"
    using json_log [of tr "error_body ''Internal Server Error''" "status 500 res" "?log1 log"] j by auto
  obtain s1 where s1: "snd (settle tr k (res, log)) = log @ s1" using settle_log by blast
  obtain s2 where s2: "snd (settle tr k (res, ?log1 log)) = ?log1 log @ s2" using settle_log by blast
  obtain s3 where s3: "snd (settle tr k (r2, log2)) = log2 @ s3" using settle_log by blast
  show ?thesis
  proof (cases oc')
    case Completed
    then show ?thesis using assms rh' m s1 by (simp add: serve_def Let_def)
  next
    case (Raised err)
    show ?thesis
    proof (cases "sentFinal res")
      case True
      then show ?thesis using assms rh' m s2 Raised by (simp add: serve_def Let_def)
    next
      case False
      obtain oc2 where "json tr (error_body ''Internal Server Error'') (status 500 res, ?log1 log) = (oc2, r2, log2)"
        using j by (cases "json tr (error_body ''Internal Server Error'') (status 500 res, ?log1 log)") auto
      then show ?thesis using assms rh' m j' s3 Raised False by (simp add: serve_def Let_def)
    qed
  qed
qed

text \<open>
  Claim C2, as the code has it. For a template of plain segments (literal text
  without syntax characters of regular expressions, parameters that are whole
  segments) and a path that is the template with a non-empty value without slash in
  the place of each parameter, with or without a slash at its end: \<open>register\<close> appends
  the route to the table, the expression of the route accepts the path and captures
  exactly the values, the scan of a table in which no earlier route accepts the path
  serves this route, whatever comes later in the table, and the handler gets the values
  under the names of the parameters, in the order of the template. In any table the
  first route that accepts a path is the one that is served.
\<close>

theorem route_match:
  assumes "\<forall>s \<in> set segs. plain_segment s"
    and "length vs = length (param_names segs)"
    and "\<forall>v \<in> set vs. v \<noteq> [] \<and> CHR ''/'' \<notin> set v"
    and "slash = [] \<or> slash = ''/''"
    and "pathname u = instantiate segs vs @ slash"
    and "rt = \<lparr>method = m, path = template_text segs, pathRegex = template_regex segs,
               paramKeys = param_names segs, handler = h, docs = d\<rparr>"
    and "\<forall>r \<in> set (routes srv). method r \<noteq> m \<or> rmatch (pathRegex r) (pathname u) = None"
    and "(if bodyString \<noteq> [] then JSON_parse bodyString else Inr JNull) = Inr b"
    and "\<forall>r \<in> set before. method r \<noteq> m' \<or> rmatch (pathRegex r) (pathname u') = None"
    and "method r1 = m'" and "rmatch (pathRegex r1) (pathname u') = Some caps"
  shows "register m (template_text segs) h d srv = Inr (srv\<lparr>routes := routes srv @ [rt]\<rparr>)
       \<and> rmatch (pathRegex rt) (pathname u) = Some vs
       \<and> dispatch tr msg m route u bodyString (routes srv @ rt # later) =
           serve tr msg m route u bodyString rt vs
       \<and> hd (snd (serve tr msg m route u bodyString rt vs)) =
           Invoke m (template_text segs)
             \<lparr>authorId = author msg, req_method = m, req_path = pathname u,
              params = fromEntries (zip (param_names segs) vs),
              query = fromEntries (searchParams u), body = b\<rparr>
       \<and> dispatch tr msg m' route u' bodyString (before @ r1 # after) =
           serve tr msg m' route u' bodyString r1 caps"
proof -
  have 1: "register m (template_text segs) h d srv = Inr (srv\<lparr>routes := routes srv @ [rt]\<rparr>)"
    using register_template [OF assms(1)] assms(6) by simp
  have 2: "rmatch (pathRegex rt) (pathname u) = Some vs"
    using rmatch_template [OF assms(1-4)] assms(5,6) by simp
  have mt: "method rt = m" using assms(6) by simp
  have 3: "dispatch tr msg m route u bodyString (routes srv @ rt # later) =
           serve tr msg m route u bodyString rt vs"
    by (rule dispatch_first [OF assms(7) mt 2])
  have 4: "hd (snd (serve tr msg m route u bodyString rt vs)) =
           Invoke m (template_text segs)
             \<lparr>authorId = author msg, req_method = m, req_path = pathname u,
              params = fromEntries (zip (param_names segs) vs),
              query = fromEntries (searchParams u), body = b\<rparr>"
    using serve_invokes [OF assms(8), of tr msg m route u rt vs] assms(6) by simp
  have 5: "dispatch tr msg m' route u' bodyString (before @ r1 # after) =
           serve tr msg m' route u' bodyString r1 caps"
    by (rule dispatch_first [OF assms(9-11)])
  show ?thesis using 1 2 3 4 5 by simp
qed

lemma amount_text:
  \<open>stringify (JObj [(''amount'', JNum 50000000)]) = ''{"amount":50000000}''\<close>
  by code_simp

text \<open>
  The example of the specification, \<open>GET /balance/742396813826457750\<close> against the route
  \<open>/balance/:userId\<close>, with a second route in the table that accepts the same path.
\<close>

theorem route_match_witness:
  \<open>register GET ''/balance/:userId'' balance_handler (Some ''Get the balance of a user by their ID'')
      (demo_server\<lparr>routes := []\<rparr>) = Inr (demo_server\<lparr>routes := [balance_route]\<rparr>)
   \<and> snd (handleMessage
            (demo_server\<lparr>routes := [balance_route,
                plain_route GET ''/balance/742396813826457750'' crashing_handler]\<rparr>)
            accept_all (ask ''GET /balance/742396813826457750'')) =
       [Invoke GET ''/balance/:userId''
          \<lparr>authorId = ''7'', req_method = GET, req_path = ''/balance/742396813826457750'',
           params = [(''userId'', ''742396813826457750'')], query = [], body = JNull\<rparr>,
        Reply 200 ''{"amount":50000000}'']\<close>
proof -
  let ?segs = "[Literal ''balance'', Param ''userId'']"
  let ?vs = "[''742396813826457750'']"
  let ?u = "\<lparr>pathname = ''/balance/742396813826457750'', searchParams = []\<rparr>"
  let ?srv = "demo_server\<lparr>routes := []\<rparr>"
  let ?later = "[plain_route GET ''/balance/742396813826457750'' crashing_handler]"
  let ?srv2 = "demo_server\<lparr>routes := balance_route # ?later\<rparr>"
  have h1: "\<forall>s \<in> set ?segs. plain_segment s"
    by (simp add: plain_char_def syntax_char_def is_word_def is_alpha_def is_digit_def)
  have h2: "length ?vs = length (param_names ?segs)" by simp
  have h3: "\<forall>v \<in> set ?vs. v \<noteq> [] \<and> CHR ''/'' \<notin> set v" by simp
  have h4: "([]::string) = [] \<or> ([]::string) = ''/''" by simp
  have h5: "pathname ?u = instantiate ?segs ?vs @ []" by simp
  have h6: "balance_route = \<lparr>method = GET, path = template_text ?segs, pathRegex = template_regex ?segs,
               paramKeys = param_names ?segs, handler = balance_handler,
               docs = Some ''Get the balance of a user by their ID''\<rparr>"
    by (simp add: balance_route_def template_regex_def literal_item_def)
  have h7: "\<forall>r \<in> set (routes ?srv). method r \<noteq> GET \<or> rmatch (pathRegex r) (pathname ?u) = None"
    by simp
  have h8: "(if ([]::string) \<noteq> [] then JSON_parse [] else Inr JNull) = Inr JNull" by simp
  have h9: "\<forall>r \<in> set []. method r \<noteq> GET \<or> rmatch (pathRegex r) (pathname ?u) = None"
    by simp
  have h10: "method balance_route = GET" by (simp add: balance_route_def)
  have h11: "rmatch (pathRegex balance_route) (pathname ?u) = Some ?vs"
    by simp code_simp
  note rm = route_match [OF h1 h2 h3 h4 h5 h6 h7 h8 h9 h10 h11,
      of accept_all "ask ''GET /balance/742396813826457750''" "''/balance/742396813826457750''" ?later ?later]
  have reg: "register GET ''/balance/:userId'' balance_handler (Some ''Get the balance of a user by their ID'')
      ?srv = Inr (demo_server\<lparr>routes := [balance_route]\<rparr>)"
    using rm by simp
  have d: "dispatch accept_all (ask ''GET /balance/742396813826457750'') GET ''/balance/742396813826457750''
             ?u [] (balance_route # ?later) =
           serve accept_all (ask ''GET /balance/742396813826457750'') GET ''/balance/742396813826457750''
             ?u [] balance_route ?vs"
    using rm by simp
  have a: "addressed ?srv2 (ask ''GET /balance/742396813826457750'') ''GET /balance/742396813826457750''"
    using addressed_ask [of "''GET /balance/742396813826457750''"] by (simp add: is_space_def)
  have p: "parse_command ''GET /balance/742396813826457750'' =
             Inr (''GET'', ''/balance/742396813826457750'', [])"
    by code_simp
  have u: "URL_parse ''/balance/742396813826457750'' = Inr ?u"
    by code_simp
  have s: \<open>snd (serve accept_all (ask ''GET /balance/742396813826457750'') GET ''/balance/742396813826457750''
             ?u [] balance_route ?vs) =
       [Invoke GET ''/balance/:userId''
          \<lparr>authorId = ''7'', req_method = GET, req_path = ''/balance/742396813826457750'',
           params = [(''userId'', ''742396813826457750'')], query = [], body = JNull\<rparr>,
        Reply 200 ''{"amount":50000000}'']\<close>
    by (simp add: serve_def run_handler_def balance_route_def balance_handler_def json_begin_def
        JSON_stringify_def new_response_def status_def fromEntries_def ask_def accepts_def
        accept_all_def amount_text Let_def del: stringify.simps)
  have e: "snd (handleMessage ?srv2 accept_all (ask ''GET /balance/742396813826457750'')) =
        snd (serve accept_all (ask ''GET /balance/742396813826457750'') GET ''/balance/742396813826457750''
             ?u [] balance_route ?vs)"
    by (simp add: handleMessage_addressed [OF a] p u d method_of_def del: dispatch.simps)
  show ?thesis
    by (rule conjI [OF reg trans [OF e s]])
qed

lemma not_found_text:
  \<open>stringify (JObj [(''error'', JStr ''Route not found: GET /a+b'')]) =
     ''{"error":"Route not found: GET /a+b"}''\<close>
  by code_simp

text \<open>
  Claim C2 as the specification states it covers every template. The text of a
  template is the source of a regular expression, so the template \<open>/a+b\<close> is compiled
  with \<open>+\<close> as a quantifier: the path \<open>/a+b\<close>, which is that template with no parameter
  to fill in, is not accepted by its own route, and the request is answered 404.
\<close>

theorem route_match_counterexample:
  \<open>template_text [Literal ''a+b''] = ''/a+b'' \<and> instantiate [Literal ''a+b''] [] = ''/a+b''
   \<and> register GET ''/a+b'' balance_handler None (plus_server\<lparr>routes := []\<rparr>) = Inr plus_server
   \<and> handleMessage plus_server accept_all (ask ''GET /a+b'') =
       (Completed, [Reply 404 ''{"error":"Route not found: GET /a+b"}''])\<close>
proof -
  have r: "RegExp ''^/a+b/?$'' =
      Inr [Chr (Lit (CHR ''/'')) One, Chr (Lit (CHR ''a'')) Plus, Chr (Lit (CHR ''b'')) One,
           Chr (Lit (CHR ''/'')) Opt]"
    by code_simp
  have rp: "replace_params ''/a+b'' = (''/a+b'', [])"
    by (simp add: is_word_def is_alpha_def is_digit_def)
  have reg: "register GET ''/a+b'' balance_handler None (plus_server\<lparr>routes := []\<rparr>) = Inr plus_server"
    by (simp add: register_def r rp plus_server_def del: replace_params.simps)
  have a: "addressed plus_server (ask ''GET /a+b'') ''GET /a+b''"
    by (simp add: addressed_def plus_server_def ask_def match_mention_def strip_prefix_def
        syntax_char_def is_space_def trim_def)
  have p: "parse_command ''GET /a+b'' = Inr (''GET'', ''/a+b'', [])"
    by code_simp
  have u: "URL_parse ''/a+b'' = Inr \<lparr>pathname = ''/a+b'', searchParams = []\<rparr>"
    by code_simp
  have m: "rmatch [Chr (Lit (CHR ''/'')) One, Chr (Lit (CHR ''a'')) Plus, Chr (Lit (CHR ''b'')) One,
           Chr (Lit (CHR ''/'')) Opt] ''/a+b'' = None"
    by code_simp
  have \<open>handleMessage plus_server accept_all (ask ''GET /a+b'') =
       (Completed, [Reply 404 ''{"error":"Route not found: GET /a+b"}''])\<close>
    by (simp add: handleMessage_addressed [OF a] p u method_of_def)
      (simp add: plus_server_def m error_body_def json_fresh not_found_text accepts_def
        accept_all_def del: stringify.simps rmatch.simps)
  then show ?thesis using reg by simp
qed

section \<open>Properties of the wire codec\<close>

subsection \<open>The route survives the percent-encoding\<close>
















subsection \<open>The words of the request\<close>













subsection \<open>The URL parser on a normal route\<close>
























subsection \<open>The body survives \<open>JSON.stringify\<close> and \<open>JSON.parse\<close>\<close>


















declare parse_value.simps [simp del] parse_elements.simps [simp del] parse_members.simps [simp del]





















subsection \<open>From the call of the client to the call of the handler\<close>










end
